theory Spec2Isabelle
  imports Complex_Main "HOL-Library.Stream" "HOL-Library.AList"
begin

section \<open>Forward-citation fetcher: a shallow embedding of SemScho_forwardCitationFetch.py\<close>

text \<open>
  The embedding follows the three methods of \<^verbatim>\<open>SemanticScholarCitationScraper\<close>:
  \<^verbatim>\<open>get_paper_by_doi\<close>, \<^verbatim>\<open>get_forward_citations\<close> and \<^verbatim>\<open>process_dois\<close>.
  The remote service is the sequence of responses it gives, one per request, in the
  order the requests are made; a method consumes responses from the front of that
  sequence and returns, besides its value, the rest of the sequence and the events
  (requests and sleeps) it caused, in order. A call that never returns has the value
  \<open>None\<close>. The depth of the call stack is bounded, as in CPython: the room that is left
  is a parameter of the one method that calls itself.
\<close>

subsection \<open>Python strings: \<^verbatim>\<open>str.replace\<close> and \<^verbatim>\<open>str.strip\<close>\<close>

text \<open>
  A \<open>char\<close> stands for one code point below 256. \<^verbatim>\<open>s.replace(old, new)\<close> scans
  \<open>s\<close> from the left and replaces each occurrence of \<open>old\<close> it meets, continuing
  after the occurrence; with an empty \<open>old\<close>, Python puts \<open>new\<close> before every
  character and at the end.
\<close>

function py_replace :: "string \<Rightarrow> string \<Rightarrow> string \<Rightarrow> string" where
  "py_replace s old new =
     (if old = [] then new @ concat (map (\<lambda>c. c # new) s)
      else if s = [] then []
      else if take (length old) s = old
        then new @ py_replace (drop (length old) s) old new
      else hd s # py_replace (tl s) old new)"
  by pat_completeness auto
termination
  by (relation "measure (\<lambda>(s, old, new). length s)") auto

declare py_replace.simps [simp del]

text \<open>
  \<^verbatim>\<open>str.isspace\<close> on the code points below 256: tab, line feed, vertical tab, form
  feed, carriage return, the four separators 28 to 31, space, next line (133) and
  no-break space (160).
\<close>

definition is_space :: "char \<Rightarrow> bool" where
  "is_space c = ((of_char c :: nat) \<in> {9, 10, 11, 12, 13, 28, 29, 30, 31, 32, 133, 160})"

definition py_strip :: "string \<Rightarrow> string" where
  "py_strip s = rev (dropWhile is_space (rev (dropWhile is_space s)))"

text \<open>Line 23: \<^verbatim>\<open>clean_doi = doi.replace('DOI:', '').replace('doi:', '').strip()\<close>.\<close>

definition clean_doi :: "string \<Rightarrow> string" where
  "clean_doi doi = py_strip (py_replace (py_replace doi ''DOI:'' []) ''doi:'' [])"

subsection \<open>Python values\<close>

text \<open>
  What \<^verbatim>\<open>response.json()\<close> returns: \<^verbatim>\<open>None\<close>, a bool, an int, a float, a str, a
  list or a dict with string keys. A dict is the list of its items, in insertion order.
\<close>

datatype json =
    JNull
  | JBool bool
  | JInt int
  | JFloat rat
  | JStr string
  | JList "json list"
  | JDict "(string \<times> json) list"

datatype py_error = AttributeError | TypeError | KeyError | JSONDecodeError

text \<open>Truth value of a Python value, as \<^verbatim>\<open>if x\<close>, \<^verbatim>\<open>not x\<close> and \<^verbatim>\<open>x or y\<close> test it.\<close>

fun truthy :: "json \<Rightarrow> bool" where
  "truthy JNull = False"
| "truthy (JBool b) = b"
| "truthy (JInt i) = (i \<noteq> 0)"
| "truthy (JFloat x) = (x \<noteq> 0)"
| "truthy (JStr s) = (s \<noteq> [])"
| "truthy (JList xs) = (xs \<noteq> [])"
| "truthy (JDict kvs) = (kvs \<noteq> [])"

text \<open>\<^verbatim>\<open>x or y\<close>.\<close>

definition py_or :: "json \<Rightarrow> json \<Rightarrow> json" where
  "py_or x y = (if truthy x then x else y)"

text \<open>\<^verbatim>\<open>d.get(key, default)\<close>: only a dict has the method.\<close>

fun py_get :: "json \<Rightarrow> string \<Rightarrow> json \<Rightarrow> py_error + json" where
  "py_get (JDict kvs) key dflt = Inr (case map_of kvs key of None \<Rightarrow> dflt | Some v \<Rightarrow> v)"
| "py_get _ key dflt = Inl AttributeError"

text \<open>\<^verbatim>\<open>d[key]\<close> with a string key: a missing key of a dict is a KeyError.\<close>

fun py_getitem :: "json \<Rightarrow> string \<Rightarrow> py_error + json" where
  "py_getitem (JDict kvs) key = (case map_of kvs key of None \<Rightarrow> Inl KeyError | Some v \<Rightarrow> Inr v)"
| "py_getitem _ key = Inl TypeError"

text \<open>\<^verbatim>\<open>x + '...'\<close> with a string on the right: only a str can be extended.\<close>

fun py_add_str :: "json \<Rightarrow> string \<Rightarrow> py_error + json" where
  "py_add_str (JStr s) t = Inr (JStr (s @ t))"
| "py_add_str _ t = Inl TypeError"

text \<open>Sequencing of steps that may raise: the first exception ends the evaluation.\<close>

definition bind_err :: "py_error + 'a \<Rightarrow> ('a \<Rightarrow> py_error + 'b) \<Rightarrow> py_error + 'b" where
  "bind_err m f = (case m of Inl e \<Rightarrow> Inl e | Inr x \<Rightarrow> f x)"

text \<open>\<^verbatim>\<open>x[:n]\<close>: a str or a list has slices, any other value raises.\<close>

fun py_slice_to :: "nat \<Rightarrow> json \<Rightarrow> py_error + json" where
  "py_slice_to n (JStr s) = Inr (JStr (take n s))"
| "py_slice_to n (JList xs) = Inr (JList (take n xs))"
| "py_slice_to n _ = Inl TypeError"

text \<open>
  Iterating a value (\<^verbatim>\<open>for\<close>, \<^verbatim>\<open>list.extend\<close>, \<^verbatim>\<open>str.join\<close>): a list gives its
  elements, a str its characters as one-character strs, a dict its keys.
\<close>

fun py_iter :: "json \<Rightarrow> py_error + json list" where
  "py_iter (JList xs) = Inr xs"
| "py_iter (JStr s) = Inr (map (\<lambda>c. JStr [c]) s)"
| "py_iter (JDict kvs) = Inr (map (\<lambda>kv. JStr (fst kv)) kvs)"
| "py_iter _ = Inl TypeError"

text \<open>\<^verbatim>\<open>len(x)\<close>.\<close>

fun py_len :: "json \<Rightarrow> py_error + nat" where
  "py_len (JList xs) = Inr (length xs)"
| "py_len (JStr s) = Inr (length s)"
| "py_len (JDict kvs) = Inr (length kvs)"
| "py_len _ = Inl TypeError"

text \<open>\<^verbatim>\<open>sep.join(items)\<close>: every item must be a str.\<close>

fun join_strs :: "string \<Rightarrow> string list \<Rightarrow> string" where
  "join_strs sep [] = []"
| "join_strs sep [s] = s"
| "join_strs sep (s # t # ss) = s @ sep @ join_strs sep (t # ss)"

fun the_strs :: "json list \<Rightarrow> py_error + string list" where
  "the_strs [] = Inr []"
| "the_strs (JStr s # vs) = (case the_strs vs of Inl e \<Rightarrow> Inl e | Inr ss \<Rightarrow> Inr (s # ss))"
| "the_strs (_ # vs) = Inl TypeError"

definition py_join :: "string \<Rightarrow> json \<Rightarrow> py_error + string" where
  "py_join sep v =
     (case py_iter v of
        Inl e \<Rightarrow> Inl e
      | Inr items \<Rightarrow> (case the_strs items of Inl e \<Rightarrow> Inl e | Inr ss \<Rightarrow> Inr (join_strs sep ss)))"

subsection \<open>The scraper, the service and the events\<close>

record scraper =
  base_url :: string
  headers :: "(string \<times> string) list"
  delay :: rat
  has_api_key :: bool

text \<open>
  \<^verbatim>\<open>__init__\<close>: the key is attached when it is a non-empty string; the delay between
  requests is 0.31 seconds with a key and 3.1 without.
\<close>

definition init_scraper :: "string option \<Rightarrow> scraper" where
  "init_scraper api_key =
     \<lparr> base_url = ''https://api.semanticscholar.org/graph/v1'',
       headers = (''User-Agent'', ''SemanticScholarCitationScraper/1.0'') #
         (case api_key of
            None \<Rightarrow> []
          | Some k \<Rightarrow> if k \<noteq> [] then [(''x-api-key'', k)] else []),
       delay = (if api_key = None \<or> api_key = Some [] then 31 / 10 else 31 / 100),
       has_api_key = (api_key \<noteq> None) \<rparr>"

text \<open>
  An f-string is the list of its parts: literal text and formatted values. A request is
  \<^verbatim>\<open>requests.get(url, headers=..., params=..., timeout=...)\<close>.
\<close>

datatype fpart = Lit string | Fmt json

record request =
  req_url :: "fpart list"
  req_headers :: "(string \<times> string) list"
  req_params :: "(string \<times> json) list"
  req_timeout :: nat

text \<open>
  What a request gives: a response with its status code and its body parsed as JSON
  (\<open>None\<close> when \<^verbatim>\<open>response.json()\<close> raises), or an exception of \<^verbatim>\<open>requests.get\<close>.
\<close>

datatype py_exn = Timeout | OtherException

datatype response = Http nat "json option" | Raises py_exn

datatype event = Request request | Sleep rat

type_synonym service = "response stream"

text \<open>Puts the events of one step before those of the steps that follow.\<close>

definition after :: "event list \<Rightarrow> 'a \<times> service \<times> event list \<Rightarrow> 'a \<times> service \<times> event list" where
  "after evs r = (case r of (x, srv, evs') \<Rightarrow> (x, srv, evs @ evs'))"

subsection \<open>\<^verbatim>\<open>get_paper_by_doi\<close>\<close>

definition paper_request :: "scraper \<Rightarrow> string \<Rightarrow> request" where
  "paper_request self clean =
     \<lparr> req_url = [Lit (base_url self), Lit ''/paper/DOI:'', Fmt (JStr clean)],
       req_headers = headers self,
       req_params =
         [(''fields'', JStr ''paperId,corpusId,title,authors,year,citationCount,venue,externalIds'')],
       req_timeout = 30 \<rparr>"

text \<open>
  Lines 34 to 36: the body is parsed and the first 60 characters of its title are printed;
  an exception of either step is caught by \<^verbatim>\<open>except Exception\<close> and the method
  returns \<^verbatim>\<open>None\<close>.
\<close>

definition found_paper :: "json option \<Rightarrow> json option" where
  "found_paper body =
     (case body of
        None \<Rightarrow> None
      | Some paper_data \<Rightarrow>
          (case py_get paper_data ''title'' (JStr ''Unknown'') of
             Inl e \<Rightarrow> None
           | Inr title \<Rightarrow>
               (case py_slice_to 60 title of Inl e \<Rightarrow> None | Inr t \<Rightarrow> Some paper_data)))"

text \<open>
  Lines 21 to 53. On a 429 the method sleeps 60 seconds and calls itself (line 43), inside
  the \<^verbatim>\<open>try\<close> of line 30. CPython bounds the depth of the call stack
  (\<^verbatim>\<open>sys.getrecursionlimit()\<close>, 1000 by default): \<open>frames\<close> is the number of nested
  calls of the method for which the stack still has room. When there is none, the call of
  line 43 ends in a \<^verbatim>\<open>RecursionError\<close> before it reads a response; that is an
  \<^verbatim>\<open>Exception\<close>, caught by line 51, and the method returns \<^verbatim>\<open>None\<close>.
\<close>

fun get_paper_by_doi ::
  "scraper \<Rightarrow> string \<Rightarrow> nat \<Rightarrow> service \<Rightarrow> json option \<times> service \<times> event list" where
  "get_paper_by_doi self doi frames srv =
     (let req = paper_request self (clean_doi doi) in
      case shd srv of
        Raises e \<Rightarrow> (None, stl srv, [Request req])
      | Http status_code body \<Rightarrow>
          if status_code = 200 then (found_paper body, stl srv, [Request req])
          else if status_code = 404 then (None, stl srv, [Request req])
          else if status_code = 429 then
            (if frames = 0 then (None, stl srv, [Request req, Sleep 60])
             else after [Request req, Sleep 60]
                    (get_paper_by_doi self doi (frames - 1) (stl srv)))
          else (None, stl srv, [Request req]))"

declare get_paper_by_doi.simps [simp del]

subsection \<open>\<^verbatim>\<open>get_forward_citations\<close>\<close>

text \<open>Lines 74 and 75: \<^verbatim>\<open>data = response.json(); citations = data.get('data', [])\<close>.\<close>

definition page_citations :: "json option \<Rightarrow> py_error + json" where
  "page_citations body =
     (case body of None \<Rightarrow> Inl JSONDecodeError | Some data \<Rightarrow> py_get data ''data'' (JList []))"

text \<open>
  The \<^verbatim>\<open>while True\<close> loop of lines 67 to 106, one request per iteration. A \<^verbatim>\<open>break\<close>
  returns the accumulated citations; each exception inside the \<^verbatim>\<open>try\<close> is caught
  and breaks. After a page that does not end the loop the method sleeps twice (lines 88
  and 106); after a 429 it sleeps 60 seconds and \<^verbatim>\<open>continue\<close> skips line 106.
\<close>

partial_function (option) citations_loop ::
  "scraper \<Rightarrow> fpart list \<Rightarrow> (string \<times> json) list \<Rightarrow> json list \<Rightarrow> int \<Rightarrow> service \<Rightarrow>
   (json list \<times> service \<times> event list) option" where
  "citations_loop self url params all_citations offset srv =
     (let params = AList.update ''offset'' (JInt offset) params;
          req = \<lparr> req_url = url, req_headers = headers self, req_params = params,
                  req_timeout = 30 \<rparr> in
      case shd srv of
        Raises e \<Rightarrow> Some (all_citations, stl srv, [Request req])
      | Http status_code body \<Rightarrow>
          if status_code = 200 then
            (case page_citations body of
               Inl e \<Rightarrow> Some (all_citations, stl srv, [Request req])
             | Inr citations \<Rightarrow>
                 if \<not> truthy citations then Some (all_citations, stl srv, [Request req])
                 else
                   (case py_iter citations of
                      Inl e \<Rightarrow> Some (all_citations, stl srv, [Request req])
                    | Inr items \<Rightarrow>
                        (case py_len citations of
                           Inl e \<Rightarrow> Some (all_citations @ items, stl srv, [Request req])
                         | Inr n \<Rightarrow>
                             if n < 1000
                             then Some (all_citations @ items, stl srv, [Request req])
                             else
                               Option.bind
                                 (citations_loop self url params (all_citations @ items)
                                    (offset + 1000) (stl srv))
                                 (\<lambda>r. Some (after [Request req, Sleep (delay self),
                                                    Sleep (delay self)] r)))))
          else if status_code = 429 then
            Option.bind (citations_loop self url params all_citations offset (stl srv))
              (\<lambda>r. Some (after [Request req, Sleep 60] r))
          else Some (all_citations, stl srv, [Request req]))"

text \<open>Lines 56 to 60: the url and the parameters before the loop sets the offset.\<close>

definition citations_url :: "scraper \<Rightarrow> json \<Rightarrow> fpart list" where
  "citations_url self paper_id =
     [Lit (base_url self), Lit ''/paper/'', Fmt paper_id, Lit ''/citations'']"

definition citations_params :: "int \<Rightarrow> (string \<times> json) list" where
  "citations_params limit =
     [(''fields'',
       JStr ''title,authors,year,venue,citationCount,externalIds,abstract,publicationTypes''),
      (''limit'', JInt (min limit 1000))]"

definition get_forward_citations ::
  "scraper \<Rightarrow> json \<Rightarrow> int \<Rightarrow> service \<Rightarrow> (json list \<times> service \<times> event list) option" where
  "get_forward_citations self paper_id limit srv =
     citations_loop self (citations_url self paper_id) (citations_params limit) [] 0 srv"

subsection \<open>\<^verbatim>\<open>process_dois\<close>: flattening the citations\<close>

record flat_citation =
  original_doi :: json
  original_title :: json
  original_paper_id :: json
  original_corpus_id :: json
  citing_title :: json
  citing_authors :: json
  citing_year :: json
  citing_venue :: json
  citing_doi :: json
  citing_pubmed_id :: json
  citing_arxiv_id :: json
  citing_citation_count :: json
  citing_paper_id :: json
  citing_publication_types :: json
  citing_abstract :: json

text \<open>Line 131: \<^verbatim>\<open>[author.get('name', '') for author in authors]\<close>.\<close>

fun author_names :: "json list \<Rightarrow> py_error + json list" where
  "author_names [] = Inr []"
| "author_names (author # authors) =
     bind_err (py_get author ''name'' (JStr []))
       (\<lambda>name. bind_err (author_names authors) (\<lambda>names. Inr (name # names)))"

text \<open>
  Line 152:
  \<^verbatim>\<open>citing_paper.get('abstract', '')[:500] + '...' if citing_paper.get('abstract') else ''\<close>.
\<close>

definition abstract_text :: "json \<Rightarrow> py_error + json" where
  "abstract_text citing_paper =
     bind_err (py_get citing_paper ''abstract'' JNull) (\<lambda>present.
       if truthy present
       then bind_err (py_get citing_paper ''abstract'' (JStr [])) (\<lambda>abstract.
              bind_err (py_slice_to 500 abstract) (\<lambda>cut. py_add_str cut ''...''))
       else Inr (JStr []))"

text \<open>Lines 128 to 153: the row of one citation, its fields evaluated in the source's order.\<close>

definition citation_data :: "string \<Rightarrow> json \<Rightarrow> json \<Rightarrow> json \<Rightarrow> json \<Rightarrow> py_error + flat_citation" where
  "citation_data doi paper paper_id orig_title citation =
     bind_err (py_get citation ''citingPaper'' (JDict [])) (\<lambda>citing_paper.
     bind_err (py_get citing_paper ''authors'' (JList [])) (\<lambda>authors.
     bind_err (py_iter authors) (\<lambda>author_items.
     bind_err (author_names author_items) (\<lambda>names.
     bind_err (py_get citing_paper ''externalIds'' JNull) (\<lambda>ids.
     let external_ids = py_or ids (JDict []) in
     bind_err (py_get external_ids ''DOI'' (JStr [])) (\<lambda>doi_id.
     bind_err (py_get external_ids ''PubMed'' (JStr [])) (\<lambda>pubmed_id.
     bind_err (py_get paper ''corpusId'' (JStr [])) (\<lambda>corpus_id.
     bind_err (py_get citing_paper ''title'' (JStr [])) (\<lambda>title.
     bind_err (py_join ''; '' (JList names)) (\<lambda>authors_joined.
     bind_err (py_get citing_paper ''year'' (JStr [])) (\<lambda>year.
     bind_err (py_get citing_paper ''venue'' (JStr [])) (\<lambda>venue.
     bind_err (py_get external_ids ''ArXiv'' (JStr [])) (\<lambda>arxiv_id.
     bind_err (py_get citing_paper ''citationCount'' (JInt 0)) (\<lambda>citation_count.
     bind_err (py_get citing_paper ''paperId'' (JStr [])) (\<lambda>citing_id.
     bind_err (py_get citing_paper ''publicationTypes'' JNull) (\<lambda>types.
     bind_err (py_join ''; '' (py_or types (JList []))) (\<lambda>types_joined.
     bind_err (abstract_text citing_paper) (\<lambda>abstract.
     Inr \<lparr> original_doi = JStr doi,
           original_title = orig_title,
           original_paper_id = paper_id,
           original_corpus_id = corpus_id,
           citing_title = title,
           citing_authors = JStr authors_joined,
           citing_year = year,
           citing_venue = venue,
           citing_doi = doi_id,
           citing_pubmed_id = pubmed_id,
           citing_arxiv_id = arxiv_id,
           citing_citation_count = citation_count,
           citing_paper_id = citing_id,
           citing_publication_types = JStr types_joined,
           citing_abstract = abstract \<rparr>))))))))))))))))))"

text \<open>The \<^verbatim>\<open>for citation in citations\<close> loop of lines 127 to 155.\<close>

fun citation_rows :: "string \<Rightarrow> json \<Rightarrow> json \<Rightarrow> json \<Rightarrow> json list \<Rightarrow> py_error + flat_citation list" where
  "citation_rows doi paper paper_id orig_title [] = Inr []"
| "citation_rows doi paper paper_id orig_title (citation # citations) =
     bind_err (citation_data doi paper paper_id orig_title citation) (\<lambda>row.
     bind_err (citation_rows doi paper paper_id orig_title citations) (\<lambda>rows.
       Inr (row # rows)))"

text \<open>
  The \<^verbatim>\<open>for doi in dois\<close> loop of lines 113 to 157. A paper that is \<^verbatim>\<open>None\<close> or an
  empty dict is skipped by \<^verbatim>\<open>continue\<close>, which also skips the sleep of line 157. An
  exception outside the two fetching methods is caught nowhere and ends the run. Every
  call of \<^verbatim>\<open>get_paper_by_doi\<close> starts at the same depth of the stack, with room for
  \<open>frames\<close> nested calls.
\<close>

fun process_loop ::
  "scraper \<Rightarrow> string list \<Rightarrow> flat_citation list \<Rightarrow> nat \<Rightarrow> service \<Rightarrow>
   ((py_error + flat_citation list) \<times> service \<times> event list) option" where
  "process_loop self [] all_forward_citations frames srv =
     Some (Inr all_forward_citations, srv, [])"
| "process_loop self (doi # dois) all_forward_citations frames srv =
     (case get_paper_by_doi self doi frames srv of
        (None, srv1, evs1) \<Rightarrow>
          map_option (after evs1) (process_loop self dois all_forward_citations frames srv1)
      | (Some paper, srv1, evs1) \<Rightarrow>
          if \<not> truthy paper
          then map_option (after evs1)
                 (process_loop self dois all_forward_citations frames srv1)
          else
            (case py_getitem paper ''paperId'' of
               Inl e \<Rightarrow> Some (Inl e, srv1, evs1)
             | Inr paper_id \<Rightarrow>
                 (case py_get paper ''title'' (JStr ''Unknown'') of
                    Inl e \<Rightarrow> Some (Inl e, srv1, evs1)
                  | Inr orig_title \<Rightarrow>
                      (case get_forward_citations self paper_id 1000 srv1 of
                         None \<Rightarrow> None
                       | Some (citations, srv2, evs2) \<Rightarrow>
                           (case citation_rows doi paper paper_id orig_title citations of
                              Inl e \<Rightarrow> Some (Inl e, srv2, evs1 @ evs2)
                            | Inr rows \<Rightarrow>
                                map_option (after (evs1 @ evs2 @ [Sleep (delay self)]))
                                  (process_loop self dois (all_forward_citations @ rows)
                                     frames srv2))))))"

definition process_dois ::
  "scraper \<Rightarrow> string list \<Rightarrow> nat \<Rightarrow> service \<Rightarrow>
   ((py_error + flat_citation list) \<times> service \<times> event list) option" where
  "process_dois self dois frames srv = process_loop self dois [] frames srv"

subsection \<open>Classes of responses\<close>

text \<open>The throttling signal is the status code 429, whatever the body.\<close>

definition throttled :: "response \<Rightarrow> bool" where
  "throttled r = (case r of Http status_code body \<Rightarrow> status_code = 429 | Raises e \<Rightarrow> False)"

text \<open>
  What \<^verbatim>\<open>get_paper_by_doi\<close> returns on a response other than a 429 (lines 33 to 53):
  the parsed paper on a 200, \<^verbatim>\<open>None\<close> on any other status and on an exception.
\<close>

definition answer :: "response \<Rightarrow> json option" where
  "answer r =
     (case r of
        Http status_code body \<Rightarrow> if status_code = 200 then found_paper body else None
      | Raises e \<Rightarrow> None)"

subsection \<open>Citation edges with the fields of the data model\<close>

text \<open>
  The specification's CitationEdge: a citing-paper sub-record with its authors (a sequence
  of records with a name), its external identifiers (a mapping), its publication types (a
  sequence of strings) and its abstract (a text). Every field may be absent; the external
  identifiers, the publication types and the abstract may also be null.
\<close>

definition author_name :: "json \<Rightarrow> string" where
  "author_name author =
     (case author of
        JDict kvs \<Rightarrow> (case map_of kvs ''name'' of Some (JStr s) \<Rightarrow> s | _ \<Rightarrow> [])
      | _ \<Rightarrow> [])"

definition author_ok :: "json \<Rightarrow> bool" where
  "author_ok author =
     (case author of
        JDict kvs \<Rightarrow> (case map_of kvs ''name'' of None \<Rightarrow> True | Some (JStr s) \<Rightarrow> True | Some _ \<Rightarrow> False)
      | _ \<Rightarrow> False)"

fun is_str :: "json \<Rightarrow> bool" where
  "is_str (JStr s) = True"
| "is_str _ = False"

definition citing_paper_ok :: "(string \<times> json) list \<Rightarrow> bool" where
  "citing_paper_ok cp =
     ((case map_of cp ''authors'' of
         None \<Rightarrow> True | Some (JList as) \<Rightarrow> list_all author_ok as | Some _ \<Rightarrow> False)
    \<and> (case map_of cp ''externalIds'' of
         None \<Rightarrow> True | Some JNull \<Rightarrow> True | Some (JDict ids) \<Rightarrow> True | Some _ \<Rightarrow> False)
    \<and> (case map_of cp ''publicationTypes'' of
         None \<Rightarrow> True | Some JNull \<Rightarrow> True | Some (JList ts) \<Rightarrow> list_all is_str ts
       | Some _ \<Rightarrow> False)
    \<and> (case map_of cp ''abstract'' of
         None \<Rightarrow> True | Some JNull \<Rightarrow> True | Some (JStr a) \<Rightarrow> True | Some _ \<Rightarrow> False))"

definition citing_paper_items :: "(string \<times> json) list \<Rightarrow> (string \<times> json) list" where
  "citing_paper_items c = (case map_of c ''citingPaper'' of Some (JDict cp) \<Rightarrow> cp | _ \<Rightarrow> [])"

definition edge_ok :: "(string \<times> json) list \<Rightarrow> bool" where
  "edge_ok c =
     (case map_of c ''citingPaper'' of
        None \<Rightarrow> True | Some (JDict cp) \<Rightarrow> citing_paper_ok cp | Some _ \<Rightarrow> False)"

subsection \<open>The prefix rule in the specification's words\<close>

text \<open>
  Follows the specification, not the source: the identifier "is stripped of any scheme
  prefix (case-insensitive) before use". The scheme prefix is the word \<^verbatim>\<open>doi\<close> in any
  letter-case followed by a colon, at the start of the identifier.
\<close>

definition scheme_prefix :: "string \<Rightarrow> bool" where
  "scheme_prefix p =
     (case p of
        [a, b, c, d] \<Rightarrow>
          a \<in> {CHR ''d'', CHR ''D''} \<and> b \<in> {CHR ''o'', CHR ''O''} \<and>
          c \<in> {CHR ''i'', CHR ''I''} \<and> d = CHR '':''
      | _ \<Rightarrow> False)"

definition strip_scheme_prefix :: "string \<Rightarrow> string" where
  "strip_scheme_prefix externalId =
     (if scheme_prefix (take 4 externalId) then drop 4 externalId else externalId)"

subsection \<open>Pages of citations\<close>

text \<open>
  What a response adds to the accumulated citations (lines 73 to 80): the list under
  \<^verbatim>\<open>data\<close> of a 200 whose body is a dict, the empty list when the key is missing.
\<close>

definition page :: "response \<Rightarrow> json list option" where
  "page r =
     (case r of
        Http status_code (Some (JDict data)) \<Rightarrow>
          if status_code = 200
          then (case map_of data ''data'' of
                  None \<Rightarrow> Some []
                | Some (JList citations) \<Rightarrow> Some citations
                | Some _ \<Rightarrow> None)
          else None
      | _ \<Rightarrow> None)"

text \<open>The citations a response contributes; none when it is not a page.\<close>

definition edges :: "response \<Rightarrow> json list" where
  "edges r = (case page r of Some citations \<Rightarrow> citations | None \<Rightarrow> [])"

text \<open>A page after which the loop goes on: line 83 compares its length with 1000.\<close>

definition full_page :: "response \<Rightarrow> bool" where
  "full_page r = (case page r of Some citations \<Rightarrow> 1000 \<le> length citations | None \<Rightarrow> False)"

text \<open>
  A transport fault: an exception of the request (lines 100 to 105) or a status code
  other than 200 and 429 (lines 95 to 97).
\<close>

definition fault :: "response \<Rightarrow> bool" where
  "fault r = (case r of Raises e \<Rightarrow> True | Http status_code body \<Rightarrow> status_code \<noteq> 200 \<and> status_code \<noteq> 429)"

text \<open>The request of one iteration: line 68 sets the offset in the parameters.\<close>

definition loop_request :: "scraper \<Rightarrow> fpart list \<Rightarrow> (string \<times> json) list \<Rightarrow> int \<Rightarrow> request" where
  "loop_request self url params offset =
     \<lparr> req_url = url, req_headers = headers self,
       req_params = AList.update ''offset'' (JInt offset) params, req_timeout = 30 \<rparr>"

text \<open>The events of responses that keep the loop going, from a given offset.\<close>

fun prefix_events ::
  "scraper \<Rightarrow> fpart list \<Rightarrow> (string \<times> json) list \<Rightarrow> int \<Rightarrow> response list \<Rightarrow> event list" where
  "prefix_events self url params offset [] = []"
| "prefix_events self url params offset (r # rs) =
     (if throttled r
      then Request (loop_request self url params offset) # Sleep 60 #
           prefix_events self url params offset rs
      else Request (loop_request self url params offset) # Sleep (delay self) #
           Sleep (delay self) # prefix_events self url params (offset + 1000) rs)"

text \<open>The offset after responses that keep the loop going.\<close>

fun prefix_offset :: "int \<Rightarrow> response list \<Rightarrow> int" where
  "prefix_offset offset [] = offset"
| "prefix_offset offset (r # rs) =
     (if throttled r then prefix_offset offset rs else prefix_offset (offset + 1000) rs)"

text \<open>The request of \<^verbatim>\<open>get_forward_citations\<close> at an offset, and the events of a prefix.\<close>

definition citations_request :: "scraper \<Rightarrow> json \<Rightarrow> int \<Rightarrow> int \<Rightarrow> request" where
  "citations_request self paper_id limit offset =
     loop_request self (citations_url self paper_id) (citations_params limit) offset"

definition fetch_events :: "scraper \<Rightarrow> json \<Rightarrow> int \<Rightarrow> response list \<Rightarrow> event list" where
  "fetch_events self paper_id limit rs =
     prefix_events self (citations_url self paper_id) (citations_params limit) 0 rs"

subsection \<open>Runs that find no citation edge\<close>

text \<open>
  A run of \<^verbatim>\<open>process_dois\<close> in which every document either does not resolve
  (\<^verbatim>\<open>get_paper_by_doi\<close> returns \<^verbatim>\<open>None\<close> or an empty dict) or resolves and
  \<^verbatim>\<open>get_forward_citations\<close> returns no edge for it.
\<close>

fun barren_run :: "scraper \<Rightarrow> string list \<Rightarrow> nat \<Rightarrow> service \<Rightarrow> bool" where
  "barren_run self [] frames srv = True"
| "barren_run self (doi # dois) frames srv =
     (case get_paper_by_doi self doi frames srv of
        (None, srv1, evs1) \<Rightarrow> barren_run self dois frames srv1
      | (Some paper, srv1, evs1) \<Rightarrow>
          if \<not> truthy paper then barren_run self dois frames srv1
          else
            (case py_getitem paper ''paperId'' of
               Inl e \<Rightarrow> False
             | Inr paper_id \<Rightarrow>
                 (case get_forward_citations self paper_id 1000 srv1 of
                    None \<Rightarrow> False
                  | Some (citations, srv2, evs2) \<Rightarrow>
                      citations = [] \<and> barren_run self dois frames srv2)))"

subsection \<open>Occurrences of a marker\<close>

text \<open>
  The text \<open>old\<close> occurs in \<open>s\<close>: it stands at some position of \<open>s\<close>, as the exact
  sequence of characters.
\<close>

fun occurs :: "string \<Rightarrow> string \<Rightarrow> bool" where
  "occurs old [] = (old = [])"
| "occurs old (c # s) = (take (length old) (c # s) = old \<or> occurs old s)"

section \<open>Properties\<close>

subsection \<open>Events of a step put before the events of the rest\<close>

lemma bind_Some_after: "Option.bind m (\<lambda>r. Some (after evs r)) = map_option (after evs) m"
  by (cases m) simp_all

lemma after_after: "after evs (after evs' r) = after (evs @ evs') r"
  by (cases r) (simp add: after_def)

lemma after_Nil: "after [] r = r"
  by (cases r) (simp add: after_def)

lemma after_triple: "after evs (x, srv, evs') = (x, srv, evs @ evs')"
  by (simp add: after_def)

lemma map_after_after:
  "map_option (after evs) (map_option (after evs') m) = map_option (after (evs @ evs')) m"
  by (cases m) (simp_all add: after_after)

lemma map_after_Nil: "map_option (after []) m = m"
  by (cases m) (simp_all add: after_Nil)

subsection \<open>Resolving a DOI under throttling\<close>

lemma get_paper_throttled:
  "throttled t \<Longrightarrow>
   get_paper_by_doi self doi (Suc frames) (t ## srv) =
     after [Request (paper_request self (clean_doi doi)), Sleep 60]
       (get_paper_by_doi self doi frames srv)"
  by (subst get_paper_by_doi.simps)
     (simp add: throttled_def Let_def split: response.splits)

lemma get_paper_no_room:
  "throttled t \<Longrightarrow>
   get_paper_by_doi self doi 0 (t ## srv) =
     (None, srv, [Request (paper_request self (clean_doi doi)), Sleep 60])"
  by (subst get_paper_by_doi.simps)
     (simp add: throttled_def Let_def split: response.splits)

lemma get_paper_answered:
  "\<not> throttled r \<Longrightarrow>
   get_paper_by_doi self doi frames (r ## srv) =
     (answer r, srv, [Request (paper_request self (clean_doi doi))])"
  by (subst get_paper_by_doi.simps)
     (simp add: throttled_def answer_def Let_def split: response.splits)

text \<open>Throttling signals for which the stack has room: one retry each.\<close>

lemma get_paper_retries:
  "list_all throttled ths \<Longrightarrow>
   get_paper_by_doi self doi (length ths + frames) (ths @- srv) =
     after (concat (replicate (length ths)
              [Request (paper_request self (clean_doi doi)), Sleep 60]))
       (get_paper_by_doi self doi frames srv)"
proof (induction ths)
  case Nil
  show ?case by (simp add: after_Nil)
next
  case (Cons t ths)
  then show ?case
    by (simp add: get_paper_throttled after_after)
qed

lemma concat_replicate_Suc: "concat (replicate n x) @ x = concat (replicate (Suc n) x)"
  by (induction n) simp_all

lemma shift_replicate_sconst: "replicate n x @- sconst x = sconst x"
proof (induction n)
  case 0
  show ?case by simp
next
  case (Suc n)
  have "replicate (Suc n) x @- sconst x = x ## (replicate n x @- sconst x)" by simp
  also have "\<dots> = x ## sconst x" by (simp only: Suc)
  also have "\<dots> = sconst x" by (rule stream.expand) simp_all
  finally show ?case .
qed

text \<open>One throttling signal more than the stack has room for: the method gives up.\<close>

lemma get_paper_gives_up:
  assumes "list_all throttled ths" and "length ths = Suc frames"
  shows "get_paper_by_doi self doi frames (ths @- srv) =
     (None, srv,
      concat (replicate (Suc frames) [Request (paper_request self (clean_doi doi)), Sleep 60]))"
proof -
  from assms(2) obtain us t where ths: "ths = us @ [t]" and len: "length us = frames"
    by (cases ths rule: rev_cases) simp_all
  from assms(1) ths have us: "list_all throttled us" and t: "throttled t" by simp_all
  have "get_paper_by_doi self doi (length us + 0) (us @- t ## srv) =
      after (concat (replicate (length us)
               [Request (paper_request self (clean_doi doi)), Sleep 60]))
        (get_paper_by_doi self doi 0 (t ## srv))"
    using us by (rule get_paper_retries)
  then show ?thesis
    by (simp only: ths len get_paper_no_room[OF t] after_triple shift_append shift.simps
        add_0_right concat_replicate_Suc)
qed

text \<open>
  C7. While the stack has room, \<^verbatim>\<open>get_paper_by_doi\<close> retries until it is answered:
  when the first response that is not a 429 comes after \<open>n\<close> throttling signals it makes
  the same request \<open>n + 1\<close> times, sleeps 60 seconds after each of the first \<open>n\<close>, and
  returns what that response gives. The retries are nested calls, and the stack has room
  for \<open>frames\<close> of them only: after \<open>frames + 1\<close> throttling signals the method returns
  \<^verbatim>\<open>None\<close>, whatever the service would have answered next, and so it returns on a
  service that throttles forever.
\<close>

theorem get_paper_by_doi_gives_up_at_recursion_limit:
  "(list_all throttled ths \<and> \<not> throttled r \<and> length ths \<le> frames \<longrightarrow>
      get_paper_by_doi self doi frames (ths @- r ## rest) =
        (answer r, rest,
         concat (replicate (length ths)
           [Request (paper_request self (clean_doi doi)), Sleep 60]) @
         [Request (paper_request self (clean_doi doi))]))
   \<and> (list_all throttled ths \<and> length ths = Suc frames \<longrightarrow>
      get_paper_by_doi self doi frames (ths @- srv) =
        (None, srv,
         concat (replicate (Suc frames)
           [Request (paper_request self (clean_doi doi)), Sleep 60])))
   \<and> get_paper_by_doi self doi frames (sconst (Http 429 body)) =
        (None, sconst (Http 429 body),
         concat (replicate (Suc frames)
           [Request (paper_request self (clean_doi doi)), Sleep 60]))"
proof (intro conjI impI)
  assume h: "list_all throttled ths \<and> \<not> throttled r \<and> length ths \<le> frames"
  then obtain k where k: "frames = length ths + k" by (auto simp: le_iff_add)
  from h show "get_paper_by_doi self doi frames (ths @- r ## rest) =
        (answer r, rest,
         concat (replicate (length ths)
           [Request (paper_request self (clean_doi doi)), Sleep 60]) @
         [Request (paper_request self (clean_doi doi))])"
    unfolding k by (simp add: get_paper_retries get_paper_answered after_triple)
next
  assume "list_all throttled ths \<and> length ths = Suc frames"
  then show "get_paper_by_doi self doi frames (ths @- srv) =
        (None, srv,
         concat (replicate (Suc frames)
           [Request (paper_request self (clean_doi doi)), Sleep 60]))"
    by (simp add: get_paper_gives_up)
next
  have t: "list_all throttled (replicate (Suc frames) (Http 429 body))"
    by (simp add: list_all_iff throttled_def)
  have l: "length (replicate (Suc frames) (Http 429 body)) = Suc frames"
    by (rule length_replicate)
  from get_paper_gives_up[OF t l, of self doi "sconst (Http 429 body)"]
  show "get_paper_by_doi self doi frames (sconst (Http 429 body)) =
        (None, sconst (Http 429 body),
         concat (replicate (Suc frames)
           [Request (paper_request self (clean_doi doi)), Sleep 60]))"
    by (simp only: shift_replicate_sconst)
qed

theorem get_paper_by_doi_gives_up_at_recursion_limit_witness:
  "list_all throttled [Http 429 None, Http 429 (Some JNull)]
   \<and> \<not> throttled (Http 200 (Some (JDict [(''paperId'', JStr ''p1'')])))
   \<and> get_paper_by_doi (init_scraper None) ''DOI:10.1/x'' 2
        ([Http 429 None, Http 429 (Some JNull)] @-
         Http 200 (Some (JDict [(''paperId'', JStr ''p1'')])) ## sconst (Http 404 None)) =
       (Some (JDict [(''paperId'', JStr ''p1'')]), sconst (Http 404 None),
        [Request (paper_request (init_scraper None) (clean_doi ''DOI:10.1/x'')), Sleep 60,
         Request (paper_request (init_scraper None) (clean_doi ''DOI:10.1/x'')), Sleep 60,
         Request (paper_request (init_scraper None) (clean_doi ''DOI:10.1/x''))])
   \<and> get_paper_by_doi (init_scraper None) ''DOI:10.1/x'' 1
        ([Http 429 None, Http 429 (Some JNull)] @-
         Http 200 (Some (JDict [(''paperId'', JStr ''p1'')])) ## sconst (Http 404 None)) =
       (None, Http 200 (Some (JDict [(''paperId'', JStr ''p1'')])) ## sconst (Http 404 None),
        [Request (paper_request (init_scraper None) (clean_doi ''DOI:10.1/x'')), Sleep 60,
         Request (paper_request (init_scraper None) (clean_doi ''DOI:10.1/x'')), Sleep 60])"
  using get_paper_by_doi_gives_up_at_recursion_limit
    [of "[Http 429 None, Http 429 (Some JNull)]"
        "Http 200 (Some (JDict [(''paperId'', JStr ''p1'')]))" 2
        "init_scraper None" "''DOI:10.1/x''" "sconst (Http 404 None)"]
    get_paper_by_doi_gives_up_at_recursion_limit
    [of "[Http 429 None, Http 429 (Some JNull)]" _ 1
        "init_scraper None" "''DOI:10.1/x''" _
        "Http 200 (Some (JDict [(''paperId'', JStr ''p1'')])) ## sconst (Http 404 None)"]
  by (simp add: throttled_def answer_def found_paper_def)

subsection \<open>Cleaning the identifier\<close>

lemma py_replace_Nil: "old \<noteq> [] \<Longrightarrow> py_replace [] old new = []"
  by (subst py_replace.simps) simp

lemma py_replace_hit:
  "old \<noteq> [] \<Longrightarrow> py_replace (old @ s) old new = new @ py_replace s old new"
  by (subst py_replace.simps) simp

lemma py_replace_skip:
  "old \<noteq> [] \<Longrightarrow> take (length old) (c # s) \<noteq> old \<Longrightarrow>
   py_replace (c # s) old new = c # py_replace s old new"
  by (subst py_replace.simps) simp

lemma clean_doi_upper_prefix: "clean_doi (''DOI:'' @ x) = clean_doi x"
proof -
  have "py_replace (''DOI:'' @ x) ''DOI:'' [] = [] @ py_replace x ''DOI:'' []"
    by (rule py_replace_hit) simp
  then show ?thesis by (simp add: clean_doi_def)
qed

lemma clean_doi_lower_prefix: "clean_doi (''doi:'' @ x) = clean_doi x"
proof -
  have "py_replace (''doi:'' @ x) ''DOI:'' [] = ''doi:'' @ py_replace x ''DOI:'' []"
    by (simp add: py_replace_skip)
  moreover have "py_replace (''doi:'' @ py_replace x ''DOI:'' []) ''doi:'' [] =
      [] @ py_replace (py_replace x ''DOI:'' []) ''doi:'' []"
    by (rule py_replace_hit) simp
  ultimately show ?thesis by (simp add: clean_doi_def)
qed

lemma py_replace_free:
  assumes "old \<noteq> []"
  shows "\<not> occurs old s \<Longrightarrow> py_replace s old new = s"
proof (induction s)
  case Nil
  show ?case using assms by (simp add: py_replace_Nil)
next
  case (Cons c s)
  then show ?case using assms by (simp add: py_replace_skip)
qed

text \<open>A marker whose first character does not come again in it cannot overlap itself.\<close>

lemma no_straddle:
  assumes "old = [a, b, d, e]" and "a \<noteq> b" and "a \<noteq> d" and "a \<noteq> e"
    and "take (length old) (c # p) \<noteq> old"
  shows "take (length old) (c # p @ old @ rest) \<noteq> old"
  using assms by (cases p; cases "tl p"; cases "tl (tl p)") auto

lemma py_replace_piece:
  assumes "old = [a, b, d, e]" and "a \<noteq> b" and "a \<noteq> d" and "a \<noteq> e"
  shows "\<not> occurs old p \<Longrightarrow> py_replace (p @ old @ rest) old new = p @ new @ py_replace rest old new"
proof (induction p)
  case Nil
  have "old \<noteq> []" using assms(1) by simp
  then show ?case by (simp add: py_replace_hit)
next
  case (Cons c p)
  then have 1: "take (length old) (c # p) \<noteq> old" and 2: "\<not> occurs old p" by simp_all
  have "take (length old) (c # p @ old @ rest) \<noteq> old"
    using assms 1 by (rule no_straddle)
  moreover have "old \<noteq> []" using assms(1) by simp
  ultimately have "py_replace (c # p @ old @ rest) old new =
      c # py_replace (p @ old @ rest) old new"
    by (simp add: py_replace_skip)
  with Cons.IH[OF 2] show ?case by simp
qed

lemma py_replace_pieces:
  assumes "old = [a, b, d, e]" and "a \<noteq> b" and "a \<noteq> d" and "a \<noteq> e"
  shows "list_all (\<lambda>p. \<not> occurs old p) ps \<Longrightarrow>
     py_replace (join_strs old ps) old [] = concat ps"
proof (induction ps rule: induct_list012)
  case 1
  show ?case using assms(1) by (simp add: py_replace_Nil)
next
  case (2 s)
  then show ?case using assms(1) by (simp add: py_replace_free)
next
  case (3 s t ss)
  then have s: "\<not> occurs old s" and rest: "list_all (\<lambda>p. \<not> occurs old p) (t # ss)"
    by simp_all
  show ?case
    using py_replace_piece[OF assms s, of "join_strs old (t # ss)" "[]"] "3.IH"(2)[OF rest]
    by simp
qed

text \<open>Every text is a sequence of pieces without the marker, with the marker between them.\<close>

lemma pieces_exist:
  assumes "old \<noteq> []"
  shows "\<exists>ps. ps \<noteq> [] \<and> join_strs old ps = s \<and> list_all (\<lambda>p. \<not> occurs old p) ps"
proof (induction s rule: length_induct)
  case (1 s)
  have tk: "take n (xs @ r) = take n xs" if "n \<le> length xs" for n and xs r :: string
    using that by simp
  show ?case
  proof (cases s)
    case Nil
    with assms show ?thesis by (intro exI[of _ "[[]]"]) simp
  next
    case (Cons c t)
    show ?thesis
    proof (cases "take (length old) s = old")
      case True
      then have s: "s = old @ drop (length old) s" by (metis append_take_drop_id)
      from assms Cons have "length (drop (length old) s) < length s" by simp
      with 1 obtain ps where ps: "ps \<noteq> []" "join_strs old ps = drop (length old) s"
        "list_all (\<lambda>p. \<not> occurs old p) ps" by blast
      from ps(1) obtain q qs where q: "ps = q # qs" by (cases ps) simp_all
      have "join_strs old ([] # ps) = old @ join_strs old ps" by (simp add: q)
      with s ps have "join_strs old ([] # ps) = s" by simp
      moreover have "list_all (\<lambda>p. \<not> occurs old p) ([] # ps)" using ps(3) assms by simp
      ultimately show ?thesis by (intro exI[of _ "[] # ps"]) simp
    next
      case False
      from Cons have "length t < length s" by simp
      with 1 obtain ps where ps: "ps \<noteq> []" "join_strs old ps = t"
        "list_all (\<lambda>p. \<not> occurs old p) ps" by blast
      from ps(1) obtain q qs where q: "ps = q # qs" by (cases ps) simp_all
      have j: "join_strs old ((c # q) # qs) = c # join_strs old (q # qs)"
        by (cases qs) simp_all
      have pre: "\<exists>r. t = q @ r" using ps(2) q by (cases qs) auto
      have "take (length old) (c # q) \<noteq> old"
      proof
        assume h: "take (length old) (c # q) = old"
        from pre obtain r where r: "t = q @ r" ..
        from arg_cong[OF h, of length] have "length old \<le> length (c # q)"
          by simp
        then have "take (length old) ((c # q) @ r) = take (length old) (c # q)"
          by (rule tk)
        with h have "take (length old) ((c # q) @ r) = old" by (simp only:)
        then have "take (length old) s = old" unfolding Cons r by (simp only: append_Cons)
        with False show False ..
      qed
      with ps(3) q have "list_all (\<lambda>p. \<not> occurs old p) ((c # q) # qs)" by simp
      moreover from j ps(2) q Cons have "join_strs old ((c # q) # qs) = s" by simp
      ultimately show ?thesis by (intro exI[of _ "(c # q) # qs"]) simp
    qed
  qed
qed

subsection \<open>Whitespace around a text\<close>

lemma py_strip_core:
  assumes "list_all is_space ws1" and "list_all is_space ws2"
    and "core \<noteq> [] \<Longrightarrow> \<not> is_space (hd core) \<and> \<not> is_space (last core)"
  shows "py_strip (ws1 @ core @ ws2) = core"
proof (cases "core = []")
  case True
  with assms(1,2) have "\<forall>x\<in>set (ws1 @ core @ ws2). is_space x"
    by (auto simp: list_all_iff)
  then have d: "dropWhile is_space (ws1 @ core @ ws2) = []"
    by (simp only: dropWhile_eq_Nil_conv)
  show ?thesis unfolding py_strip_def d using True by simp
next
  case False
  with assms(3) have h: "\<not> is_space (hd core)" and l: "\<not> is_space (last core)" by simp_all
  from False obtain c cs where c: "core = c # cs" by (cases core) simp_all
  from assms(1) h c have 1: "dropWhile is_space (ws1 @ core @ ws2) = core @ ws2"
    by (simp add: dropWhile_append2 list_all_iff)
  from False obtain ds d where d: "core = ds @ [d]" by (cases core rule: rev_cases) simp_all
  from l d have nd: "\<not> is_space d" by simp
  have "dropWhile is_space (rev ws2 @ rev core) = dropWhile is_space (rev core)"
    by (rule dropWhile_append2) (use assms(2) in \<open>simp add: list_all_iff\<close>)
  also have "\<dots> = rev core" using nd by (simp add: d)
  finally have "dropWhile is_space (rev (core @ ws2)) = rev core" by (simp only: rev_append)
  then show ?thesis unfolding py_strip_def 1 by (simp only: rev_rev_ident)
qed

lemma strip_parts_exist:
  "\<exists>ws1 core ws2. s = ws1 @ core @ ws2 \<and> list_all is_space ws1 \<and> list_all is_space ws2
     \<and> (core \<noteq> [] \<longrightarrow> \<not> is_space (hd core) \<and> \<not> is_space (last core))"
proof -
  define ws1 where "ws1 = takeWhile is_space s"
  define a where "a = dropWhile is_space s"
  define ws2 where "ws2 = rev (takeWhile is_space (rev a))"
  define core where "core = rev (dropWhile is_space (rev a))"
  have s: "s = ws1 @ a" by (simp add: ws1_def a_def)
  have "core @ ws2 = rev (takeWhile is_space (rev a) @ dropWhile is_space (rev a))"
    unfolding core_def ws2_def by (simp only: rev_append)
  also have "\<dots> = a" by simp
  finally have a: "a = core @ ws2" by simp
  have w1: "list_all is_space ws1"
    by (auto simp: ws1_def list_all_iff dest: set_takeWhileD)
  have w2: "list_all is_space ws2"
    by (auto simp: ws2_def list_all_iff dest: set_takeWhileD)
  have c: "\<not> is_space (hd core) \<and> \<not> is_space (last core)" if ne: "core \<noteq> []"
  proof
    from ne a have "a \<noteq> []" by simp
    then have "\<not> is_space (hd a)" unfolding a_def by (rule hd_dropWhile)
    with ne a show "\<not> is_space (hd core)" by simp
    from ne have "dropWhile is_space (rev a) \<noteq> []" by (simp add: core_def)
    then have "\<not> is_space (hd (dropWhile is_space (rev a)))" by (rule hd_dropWhile)
    with ne show "\<not> is_space (last core)" by (simp add: core_def last_rev)
  qed
  from s a w1 w2 c show ?thesis by blast
qed

lemma clean_doi_pieces:
  assumes "list_all (\<lambda>p. \<not> occurs ''DOI:'' p) ps"
    and "concat ps = join_strs ''doi:'' qs"
    and "list_all (\<lambda>q. \<not> occurs ''doi:'' q) qs"
    and "concat qs = ws1 @ core @ ws2"
    and "list_all is_space ws1" and "list_all is_space ws2"
    and "core \<noteq> [] \<longrightarrow> \<not> is_space (hd core) \<and> \<not> is_space (last core)"
  shows "clean_doi (join_strs ''DOI:'' ps) = core"
proof -
  have "py_replace (join_strs ''DOI:'' ps) ''DOI:'' [] = concat ps"
    by (rule py_replace_pieces[where a = "CHR ''D''" and b = "CHR ''O''" and d = "CHR ''I''"
          and e = "CHR '':''"]) (simp_all add: assms(1))
  moreover have "py_replace (join_strs ''doi:'' qs) ''doi:'' [] = concat qs"
    by (rule py_replace_pieces[where a = "CHR ''d''" and b = "CHR ''o''" and d = "CHR ''i''"
          and e = "CHR '':''"]) (simp_all add: assms(3))
  moreover have "py_strip (ws1 @ core @ ws2) = core"
    using assms(5,6,7) by (intro py_strip_core) simp_all
  ultimately show ?thesis by (simp only: clean_doi_def assms(2,4))
qed

text \<open>
  C9. The cleaning removes \<^verbatim>\<open>DOI:\<close> and \<^verbatim>\<open>doi:\<close> wherever they stand, not only at the
  start, and then strips the whitespace around the result. Whatever the input: written as
  pieces without \<^verbatim>\<open>DOI:\<close> with \<^verbatim>\<open>DOI:\<close> between them, the first pass leaves the
  pieces joined; that text, written as pieces without \<^verbatim>\<open>doi:\<close> with \<^verbatim>\<open>doi:\<close> between
  them, is left by the second pass as those pieces joined; and of that text, the part
  between the leading and the trailing whitespace is the cleaned identifier. Every input
  can be written in this way. \<^verbatim>\<open>10.1/aDOI:b\<close> is cleaned to \<^verbatim>\<open>10.1/ab\<close>, which is not
  the identifier with only a leading prefix removed.
\<close>

theorem clean_doi_removes_markers_anywhere:
  "(list_all (\<lambda>p. \<not> occurs ''DOI:'' p) ps
      \<and> concat ps = join_strs ''doi:'' qs \<and> list_all (\<lambda>q. \<not> occurs ''doi:'' q) qs
      \<and> concat qs = ws1 @ core @ ws2 \<and> list_all is_space ws1 \<and> list_all is_space ws2
      \<and> (core \<noteq> [] \<longrightarrow> \<not> is_space (hd core) \<and> \<not> is_space (last core))
    \<longrightarrow> clean_doi (join_strs ''DOI:'' ps) = core)
   \<and> (\<exists>ps qs ws1 core ws2.
        doi = join_strs ''DOI:'' ps \<and> list_all (\<lambda>p. \<not> occurs ''DOI:'' p) ps
        \<and> concat ps = join_strs ''doi:'' qs \<and> list_all (\<lambda>q. \<not> occurs ''doi:'' q) qs
        \<and> concat qs = ws1 @ core @ ws2 \<and> list_all is_space ws1 \<and> list_all is_space ws2
        \<and> (core \<noteq> [] \<longrightarrow> \<not> is_space (hd core) \<and> \<not> is_space (last core))
        \<and> clean_doi doi = core)
   \<and> clean_doi ''10.1/aDOI:b'' = ''10.1/ab''
   \<and> clean_doi ''10.1/aDOI:b'' \<noteq> strip_scheme_prefix ''10.1/aDOI:b''"
proof (intro conjI)
  show "list_all (\<lambda>p. \<not> occurs ''DOI:'' p) ps
      \<and> concat ps = join_strs ''doi:'' qs \<and> list_all (\<lambda>q. \<not> occurs ''doi:'' q) qs
      \<and> concat qs = ws1 @ core @ ws2 \<and> list_all is_space ws1 \<and> list_all is_space ws2
      \<and> (core \<noteq> [] \<longrightarrow> \<not> is_space (hd core) \<and> \<not> is_space (last core))
    \<longrightarrow> clean_doi (join_strs ''DOI:'' ps) = core"
    using clean_doi_pieces[of ps qs ws1 core ws2] by blast
next
  obtain ps where ps: "join_strs ''DOI:'' ps = doi" "list_all (\<lambda>p. \<not> occurs ''DOI:'' p) ps"
    using pieces_exist[of "''DOI:''" doi] by auto
  obtain qs where qs: "join_strs ''doi:'' qs = concat ps"
    "list_all (\<lambda>q. \<not> occurs ''doi:'' q) qs"
    using pieces_exist[of "''doi:''" "concat ps"] by auto
  obtain ws1 core ws2 where w: "concat qs = ws1 @ core @ ws2" "list_all is_space ws1"
    "list_all is_space ws2"
    "core \<noteq> [] \<longrightarrow> \<not> is_space (hd core) \<and> \<not> is_space (last core)"
    using strip_parts_exist[of "concat qs"] by blast
  have "clean_doi (join_strs ''DOI:'' ps) = core"
    using ps(2) qs(1)[symmetric] qs(2) w by (rule clean_doi_pieces)
  with ps qs w show "\<exists>ps qs ws1 core ws2.
        doi = join_strs ''DOI:'' ps \<and> list_all (\<lambda>p. \<not> occurs ''DOI:'' p) ps
        \<and> concat ps = join_strs ''doi:'' qs \<and> list_all (\<lambda>q. \<not> occurs ''doi:'' q) qs
        \<and> concat qs = ws1 @ core @ ws2 \<and> list_all is_space ws1 \<and> list_all is_space ws2
        \<and> (core \<noteq> [] \<longrightarrow> \<not> is_space (hd core) \<and> \<not> is_space (last core))
        \<and> clean_doi doi = core"
    by (intro exI[of _ ps] exI[of _ qs] exI[of _ ws1] exI[of _ core] exI[of _ ws2]) simp
next
  show "clean_doi ''10.1/aDOI:b'' = ''10.1/ab''"
    by (simp add: clean_doi_def py_replace.simps py_strip_def is_space_def)
next
  show "clean_doi ''10.1/aDOI:b'' \<noteq> strip_scheme_prefix ''10.1/aDOI:b''"
    by (simp add: clean_doi_def py_replace.simps py_strip_def is_space_def
        strip_scheme_prefix_def scheme_prefix_def)
qed

theorem clean_doi_removes_markers_anywhere_witness:
  "clean_doi '' 10.1/a:bDOI:c doi:d  '' = ''10.1/a:bc d''"
  using clean_doi_removes_markers_anywhere
    [of "['' 10.1/a:b'', ''c doi:d  '']" "['' 10.1/a:bc '', ''d  '']"
        "'' ''" "''10.1/a:bc d''" "''  ''"]
  by (simp add: is_space_def)

subsection \<open>The prefix of the identifier\<close>

text \<open>Two identifiers that are cleaned to the same text are resolved in the same way.\<close>

lemma get_paper_same_clean:
  assumes "clean_doi d1 = clean_doi d2"
  shows "get_paper_by_doi self d1 frames srv = get_paper_by_doi self d2 frames srv"
proof (induction frames arbitrary: srv)
  case 0
  show ?case
    by (subst get_paper_by_doi.simps[of self d1 0], subst get_paper_by_doi.simps[of self d2 0])
       (simp add: assms Let_def split: response.splits)
next
  case (Suc frames)
  show ?case
    by (subst get_paper_by_doi.simps[of self d1 "Suc frames"],
        subst get_paper_by_doi.simps[of self d2 "Suc frames"])
       (simp add: assms Suc.IH Let_def split: response.splits)
qed

text \<open>
  C2, as stated, fails: the prefix \<^verbatim>\<open>Doi:\<close> is a scheme prefix in the specification's
  sense, and the source leaves it in the identifier, so that the request for
  \<^verbatim>\<open>Doi:10.1/x\<close> is not the request for \<^verbatim>\<open>10.1/x\<close>.
\<close>

theorem resolve_mixed_case_prefix_counterexample:
  "clean_doi ''Doi:10.1/x'' \<noteq> strip_scheme_prefix ''Doi:10.1/x''
   \<and> paper_request (init_scraper None) (clean_doi ''Doi:10.1/x'') \<noteq>
       paper_request (init_scraper None) (clean_doi ''10.1/x'')
   \<and> get_paper_by_doi (init_scraper None) ''Doi:10.1/x'' 1000 (sconst (Http 404 None)) \<noteq>
       get_paper_by_doi (init_scraper None) ''10.1/x'' 1000 (sconst (Http 404 None))"
proof -
  have a: "clean_doi ''Doi:10.1/x'' = ''Doi:10.1/x''"
    by (simp add: clean_doi_def py_replace.simps py_strip_def is_space_def)
  have b: "clean_doi ''10.1/x'' = ''10.1/x''"
    by (simp add: clean_doi_def py_replace.simps py_strip_def is_space_def)
  have c: "strip_scheme_prefix ''Doi:10.1/x'' = ''10.1/x''"
    by (simp add: strip_scheme_prefix_def scheme_prefix_def)
  have e: "get_paper_by_doi (init_scraper None) doi 1000 (sconst (Http 404 None)) =
      (answer (Http 404 None), sconst (Http 404 None),
       [Request (paper_request (init_scraper None) (clean_doi doi))])" for doi
    by (subst get_paper_by_doi.simps) (simp add: Let_def answer_def)
  show ?thesis by (simp add: a b c e paper_request_def)
qed

text \<open>
  C2, amended. The two spellings \<^verbatim>\<open>DOI:\<close> and \<^verbatim>\<open>doi:\<close> are stripped: an identifier
  with one of them in front is resolved exactly as the identifier without it, with the
  same requests and the same result.
\<close>

theorem resolve_strips_exact_prefix:
  "get_paper_by_doi self (''DOI:'' @ x) frames srv = get_paper_by_doi self x frames srv
   \<and> get_paper_by_doi self (''doi:'' @ x) frames srv = get_paper_by_doi self x frames srv
   \<and> paper_request self (clean_doi (''DOI:'' @ x)) = paper_request self (clean_doi x)
   \<and> paper_request self (clean_doi (''doi:'' @ x)) = paper_request self (clean_doi x)"
  using get_paper_same_clean[OF clean_doi_upper_prefix, of self x frames srv]
    get_paper_same_clean[OF clean_doi_lower_prefix, of self x frames srv]
  by (simp only: clean_doi_upper_prefix clean_doi_lower_prefix simp_thms)

subsection \<open>Flattening a citation\<close>

lemma bind_err_Inr: "bind_err m f = Inr y \<Longrightarrow> (\<And>x. m = Inr x \<Longrightarrow> f x = Inr y \<Longrightarrow> P) \<Longrightarrow> P"
  by (cases m) (simp_all add: bind_err_def)

lemma author_names_ok:
  "list_all author_ok as \<Longrightarrow> author_names as = Inr (map (\<lambda>a. JStr (author_name a)) as)"
proof (induction as)
  case Nil
  show ?case by simp
next
  case (Cons a as)
  then have "author_ok a" and IH: "author_names as = Inr (map (\<lambda>a. JStr (author_name a)) as)"
    by simp_all
  from \<open>author_ok a\<close> have "py_get a ''name'' (JStr []) = Inr (JStr (author_name a))"
    by (auto simp: author_ok_def author_name_def split: json.splits option.splits)
  with IH show ?case by (simp add: bind_err_def)
qed

lemma the_strs_JStr: "the_strs (map (\<lambda>a. JStr (f a)) as) = Inr (map f as)"
  by (induction as) simp_all

lemma the_strs_is_str: "list_all is_str ts \<Longrightarrow> \<exists>ss. the_strs ts = Inr ss"
proof (induction ts)
  case Nil
  show ?case by simp
next
  case (Cons t ts)
  then obtain ss where "the_strs ts = Inr ss" by auto
  moreover from Cons.prems obtain s where "t = JStr s" by (cases t) simp_all
  ultimately show ?case by simp
qed

lemma authors_joined_ok:
  assumes "citing_paper_ok cp"
  shows "\<exists>items. py_iter (case map_of cp ''authors'' of None \<Rightarrow> JList [] | Some v \<Rightarrow> v) = Inr items
      \<and> author_names items = Inr (map (\<lambda>a. JStr (author_name a)) items)
      \<and> py_join ''; '' (JList (map (\<lambda>a. JStr (author_name a)) items)) =
          Inr (join_strs ''; '' (map author_name items))
      \<and> (map_of cp ''authors'' = None \<longrightarrow> items = [])
      \<and> (\<forall>as. map_of cp ''authors'' = Some (JList as) \<longrightarrow> items = as)"
proof (cases "map_of cp ''authors''")
  case None
  then show ?thesis by (simp add: py_join_def)
next
  case (Some v)
  with assms obtain as where v: "v = JList as" and ok: "list_all author_ok as"
    by (cases v) (simp_all add: citing_paper_ok_def)
  show ?thesis using Some v author_names_ok[OF ok]
    by (simp add: py_join_def the_strs_JStr)
qed

lemma external_ids_ok:
  assumes "citing_paper_ok cp"
  shows "\<exists>ids. py_or (case map_of cp ''externalIds'' of None \<Rightarrow> JNull | Some v \<Rightarrow> v) (JDict []) = JDict ids
     \<and> (map_of cp ''externalIds'' = None \<or> map_of cp ''externalIds'' = Some JNull \<longrightarrow> ids = [])"
proof (cases "map_of cp ''externalIds''")
  case None
  then show ?thesis by (simp add: py_or_def)
next
  case (Some v)
  with assms have "v = JNull \<or> (\<exists>ids. v = JDict ids)"
    by (cases v) (simp_all add: citing_paper_ok_def)
  then show ?thesis using Some by (auto simp: py_or_def)
qed

lemma publication_types_ok:
  assumes "citing_paper_ok cp"
  shows "\<exists>s. py_join ''; '' (py_or (case map_of cp ''publicationTypes'' of None \<Rightarrow> JNull | Some v \<Rightarrow> v) (JList [])) = Inr s
     \<and> (map_of cp ''publicationTypes'' = None \<or> map_of cp ''publicationTypes'' = Some JNull \<longrightarrow> s = [])"
proof (cases "map_of cp ''publicationTypes''")
  case None
  then show ?thesis by (simp add: py_or_def py_join_def)
next
  case (Some v)
  with assms have "v = JNull \<or> (\<exists>ts. v = JList ts \<and> list_all is_str ts)"
    by (cases v) (simp_all add: citing_paper_ok_def)
  then show ?thesis
  proof
    assume "v = JNull"
    then show ?thesis using Some by (simp add: py_or_def py_join_def)
  next
    assume "\<exists>ts. v = JList ts \<and> list_all is_str ts"
    then obtain ts where v: "v = JList ts" and ts: "list_all is_str ts" by blast
    from the_strs_is_str[OF ts] obtain ss where "the_strs ts = Inr ss" ..
    then show ?thesis using Some v by (auto simp: py_or_def py_join_def)
  qed
qed

lemma abstract_ok:
  assumes "citing_paper_ok cp"
  shows "\<exists>s. abstract_text (JDict cp) = Inr (JStr s)"
proof (cases "map_of cp ''abstract''")
  case None
  then show ?thesis by (simp add: abstract_text_def bind_err_def)
next
  case (Some v)
  with assms have "v = JNull \<or> (\<exists>a. v = JStr a)"
    by (cases v) (simp_all add: citing_paper_ok_def)
  then show ?thesis using Some by (auto simp: abstract_text_def bind_err_def)
qed

lemma citation_data_total:
  assumes "edge_ok c"
  shows "\<exists>row. citation_data doi (JDict p) paper_id orig_title (JDict c) = Inr row"
proof -
  define cp where "cp = citing_paper_items c"
  have "py_get (JDict c) ''citingPaper'' (JDict []) = Inr (JDict cp) \<and> citing_paper_ok cp"
  proof (cases "map_of c ''citingPaper''")
    case None
    then show ?thesis by (simp add: cp_def citing_paper_items_def citing_paper_ok_def)
  next
    case (Some v)
    with assms obtain cp' where "v = JDict cp'" and "citing_paper_ok cp'"
      by (cases v) (simp_all add: edge_ok_def)
    with Some show ?thesis by (simp add: cp_def citing_paper_items_def)
  qed
  then have cpv: "py_get (JDict c) ''citingPaper'' (JDict []) = Inr (JDict cp)"
    and ok: "citing_paper_ok cp" by simp_all
  from authors_joined_ok[OF ok] obtain items where
    a: "py_iter (case map_of cp ''authors'' of None \<Rightarrow> JList [] | Some v \<Rightarrow> v) = Inr items"
      "author_names items = Inr (map (\<lambda>a. JStr (author_name a)) items)"
      "py_join ''; '' (JList (map (\<lambda>a. JStr (author_name a)) items)) =
          Inr (join_strs ''; '' (map author_name items))"
    by blast
  from external_ids_ok[OF ok] obtain ids where
    i: "py_or (case map_of cp ''externalIds'' of None \<Rightarrow> JNull | Some v \<Rightarrow> v) (JDict []) = JDict ids"
    by blast
  from publication_types_ok[OF ok] obtain ts where
    t: "py_join ''; '' (py_or (case map_of cp ''publicationTypes'' of None \<Rightarrow> JNull | Some v \<Rightarrow> v) (JList [])) = Inr ts"
    by blast
  from abstract_ok[OF ok] obtain s where s: "abstract_text (JDict cp) = Inr (JStr s)" ..
  show ?thesis
    unfolding citation_data_def Let_def
    by (simp add: bind_err_def cpv[simplified] a i t s)
qed

lemma py_get_Inr_dict: "py_get v key dflt = Inr x \<Longrightarrow> \<exists>kvs. v = JDict kvs"
  by (cases v) simp_all

lemma citation_data_Inr:
  assumes "citation_data doi paper paper_id orig_title citation = Inr row"
  obtains cp items names ids authors_s types_s where
    "py_get citation ''citingPaper'' (JDict []) = Inr (JDict cp)"
    and "py_iter (case map_of cp ''authors'' of None \<Rightarrow> JList [] | Some v \<Rightarrow> v) = Inr items"
    and "author_names items = Inr names"
    and "py_join ''; '' (JList names) = Inr authors_s"
    and "citing_authors row = JStr authors_s"
    and "py_or (case map_of cp ''externalIds'' of None \<Rightarrow> JNull | Some v \<Rightarrow> v) (JDict []) = JDict ids"
    and "citing_doi row = (case map_of ids ''DOI'' of None \<Rightarrow> JStr [] | Some v \<Rightarrow> v)"
    and "citing_pubmed_id row = (case map_of ids ''PubMed'' of None \<Rightarrow> JStr [] | Some v \<Rightarrow> v)"
    and "citing_arxiv_id row = (case map_of ids ''ArXiv'' of None \<Rightarrow> JStr [] | Some v \<Rightarrow> v)"
    and "py_join ''; '' (py_or (case map_of cp ''publicationTypes'' of None \<Rightarrow> JNull | Some v \<Rightarrow> v) (JList [])) = Inr types_s"
    and "citing_publication_types row = JStr types_s"
    and "citing_title row = (case map_of cp ''title'' of None \<Rightarrow> JStr [] | Some v \<Rightarrow> v)"
    and "citing_year row = (case map_of cp ''year'' of None \<Rightarrow> JStr [] | Some v \<Rightarrow> v)"
    and "citing_venue row = (case map_of cp ''venue'' of None \<Rightarrow> JStr [] | Some v \<Rightarrow> v)"
    and "citing_paper_id row = (case map_of cp ''paperId'' of None \<Rightarrow> JStr [] | Some v \<Rightarrow> v)"
    and "citing_citation_count row = (case map_of cp ''citationCount'' of None \<Rightarrow> JInt 0 | Some v \<Rightarrow> v)"
    and "abstract_text (JDict cp) = Inr (citing_abstract row)"
proof -
  from assms obtain cpv where 1: "py_get citation ''citingPaper'' (JDict []) = Inr cpv"
    unfolding citation_data_def by (elim bind_err_Inr)
  from assms 1 obtain cp where 2: "cpv = JDict cp"
    unfolding citation_data_def by (cases cpv) (simp_all add: bind_err_def)
  define e where "e = py_or (case map_of cp ''externalIds'' of None \<Rightarrow> JNull | Some v \<Rightarrow> v) (JDict [])"
  from assms 1 2 obtain x where "py_get e ''DOI'' (JStr []) = Inr x"
    unfolding citation_data_def Let_def e_def
    by (elim bind_err_Inr) simp
  then obtain ids where 3: "e = JDict ids" using py_get_Inr_dict by blast
  from assms 1 2 3[unfolded e_def] show ?thesis
    unfolding citation_data_def Let_def
    apply (elim bind_err_Inr)
    apply (rule that[of cp _ _ _ ids])
    apply auto
    done
qed

lemma abstract_text_present:
  "map_of cp ''abstract'' = Some (JStr a) \<Longrightarrow> a \<noteq> [] \<Longrightarrow>
   abstract_text (JDict cp) = Inr (JStr (take 500 a @ ''...''))"
  by (simp add: abstract_text_def bind_err_def)

lemma abstract_text_absent:
  "map_of cp ''abstract'' = None \<or> map_of cp ''abstract'' = Some JNull \<or>
   map_of cp ''abstract'' = Some (JStr []) \<Longrightarrow>
   abstract_text (JDict cp) = Inr (JStr [])"
  by (auto simp: abstract_text_def bind_err_def)

text \<open>
  C4. An abstract that is a non-empty text is cut to its first 500 characters and three
  dots are appended, whatever its length (600 characters give 503); an abstract that is
  absent, null or empty gives the empty text.
\<close>

theorem citing_abstract_truncated:
  "(map_of cp ''abstract'' = Some (JStr a) \<and> a \<noteq> [] \<longrightarrow>
      abstract_text (JDict cp) = Inr (JStr (take 500 a @ ''...'')))
   \<and> (map_of cp ''abstract'' = None \<or> map_of cp ''abstract'' = Some JNull \<or>
       map_of cp ''abstract'' = Some (JStr []) \<longrightarrow>
      abstract_text (JDict cp) = Inr (JStr []))
   \<and> (citation_data doi paper paper_id orig_title citation = Inr row \<and>
       py_get citation ''citingPaper'' (JDict []) = Inr (JDict cp) \<longrightarrow>
        (map_of cp ''abstract'' = Some (JStr a) \<and> a \<noteq> [] \<longrightarrow>
           citing_abstract row = JStr (take 500 a @ ''...''))
      \<and> (map_of cp ''abstract'' = Some (JStr a) \<and> length a = 600 \<longrightarrow>
           citing_abstract row = JStr (take 500 a @ ''...'') \<and>
           length (take 500 a @ ''...'') = 503)
      \<and> (map_of cp ''abstract'' = None \<or> map_of cp ''abstract'' = Some JNull \<or>
          map_of cp ''abstract'' = Some (JStr []) \<longrightarrow>
           citing_abstract row = JStr []))"
proof (intro conjI impI)
  assume "map_of cp ''abstract'' = Some (JStr a) \<and> a \<noteq> []"
  then show "abstract_text (JDict cp) = Inr (JStr (take 500 a @ ''...''))"
    by (simp add: abstract_text_present)
next
  assume "map_of cp ''abstract'' = None \<or> map_of cp ''abstract'' = Some JNull \<or>
       map_of cp ''abstract'' = Some (JStr [])"
  then show "abstract_text (JDict cp) = Inr (JStr [])" by (rule abstract_text_absent)
next
  assume row: "citation_data doi paper paper_id orig_title citation = Inr row \<and>
       py_get citation ''citingPaper'' (JDict []) = Inr (JDict cp)"
  then have t: "abstract_text (JDict cp) = Inr (citing_abstract row)"
    by (elim conjE citation_data_Inr) simp
  {
    assume "map_of cp ''abstract'' = Some (JStr a) \<and> a \<noteq> []"
    then show "citing_abstract row = JStr (take 500 a @ ''...'')"
      using t by (simp add: abstract_text_present)
  next
    assume h: "map_of cp ''abstract'' = Some (JStr a) \<and> length a = 600"
    then have "a \<noteq> []" by auto
    with h show "citing_abstract row = JStr (take 500 a @ ''...'')"
      using t by (simp add: abstract_text_present)
    from h show "length (take 500 a @ ''...'') = 503" by simp
  next
    assume "map_of cp ''abstract'' = None \<or> map_of cp ''abstract'' = Some JNull \<or>
          map_of cp ''abstract'' = Some (JStr [])"
    then have "abstract_text (JDict cp) = Inr (JStr [])" by (rule abstract_text_absent)
    with t show "citing_abstract row = JStr []" by simp
  }
qed

theorem citing_abstract_truncated_witness:
  "citation_data ''10.1/x'' (JDict []) (JStr ''p1'') (JStr ''T'')
     (JDict [(''citingPaper'', JDict [(''abstract'', JStr (replicate 600 CHR ''a''))])]) =
     Inr \<lparr> original_doi = JStr ''10.1/x'', original_title = JStr ''T'',
           original_paper_id = JStr ''p1'', original_corpus_id = JStr [],
           citing_title = JStr [], citing_authors = JStr [], citing_year = JStr [],
           citing_venue = JStr [], citing_doi = JStr [], citing_pubmed_id = JStr [],
           citing_arxiv_id = JStr [], citing_citation_count = JInt 0,
           citing_paper_id = JStr [], citing_publication_types = JStr [],
           citing_abstract = JStr (replicate 500 CHR ''a'' @ ''...'') \<rparr>
   \<and> abstract_text (JDict [(''abstract'', JStr (replicate 600 CHR ''a''))]) =
        Inr (JStr (replicate 500 CHR ''a'' @ ''...''))
   \<and> abstract_text (JDict [(''abstract'', JStr [])]) = Inr (JStr [])"
  using citing_abstract_truncated
    [of "[(''abstract'', JStr (replicate 600 CHR ''a''))]" "replicate 600 CHR ''a''"
        "''10.1/x''" "JDict []" "JStr ''p1''" "JStr ''T''"
        "JDict [(''citingPaper'', JDict [(''abstract'', JStr (replicate 600 CHR ''a''))])]"]
    citing_abstract_truncated [of "[(''abstract'', JStr [])]"]
  by (simp add: citation_data_def abstract_text_def bind_err_def py_or_def py_join_def)

text \<open>
  C10. A missing \<^verbatim>\<open>citationCount\<close> gives the integer 0, a missing title, year, venue or
  paperId gives the empty text; in the row of an edge without citing paper the citation
  count is the only citing field that is not a text, and the years of two rows, one with a
  year and one without, are an integer and the empty text.
\<close>

theorem citation_count_default_is_integer:
  "(citation_data doi paper paper_id orig_title citation = Inr row \<and>
    py_get citation ''citingPaper'' (JDict []) = Inr (JDict cp) \<longrightarrow>
      (map_of cp ''citationCount'' = None \<longrightarrow> citing_citation_count row = JInt 0)
    \<and> (map_of cp ''title'' = None \<longrightarrow> citing_title row = JStr [])
    \<and> (map_of cp ''year'' = None \<longrightarrow> citing_year row = JStr [])
    \<and> (map_of cp ''venue'' = None \<longrightarrow> citing_venue row = JStr [])
    \<and> (map_of cp ''paperId'' = None \<longrightarrow> citing_paper_id row = JStr [])
    \<and> (map_of cp ''year'' = Some (JInt y) \<longrightarrow> citing_year row = JInt y))
   \<and> citation_data doi (JDict p) paper_id orig_title (JDict []) =
       Inr \<lparr> original_doi = JStr doi, original_title = orig_title,
             original_paper_id = paper_id,
             original_corpus_id = (case map_of p ''corpusId'' of None \<Rightarrow> JStr [] | Some v \<Rightarrow> v),
             citing_title = JStr [], citing_authors = JStr [], citing_year = JStr [],
             citing_venue = JStr [], citing_doi = JStr [], citing_pubmed_id = JStr [],
             citing_arxiv_id = JStr [], citing_citation_count = JInt 0,
             citing_paper_id = JStr [], citing_publication_types = JStr [],
             citing_abstract = JStr [] \<rparr>
   \<and> map_sum id (map citing_year)
        (citation_rows doi (JDict p) paper_id orig_title
           [JDict [(''citingPaper'', JDict [(''year'', JInt y)])], JDict []]) =
       Inr [JInt y, JStr []]"
proof (intro conjI impI)
  assume row: "citation_data doi paper paper_id orig_title citation = Inr row \<and>
    py_get citation ''citingPaper'' (JDict []) = Inr (JDict cp)"
  then have f: "citing_citation_count row = (case map_of cp ''citationCount'' of None \<Rightarrow> JInt 0 | Some v \<Rightarrow> v)"
      "citing_title row = (case map_of cp ''title'' of None \<Rightarrow> JStr [] | Some v \<Rightarrow> v)"
      "citing_year row = (case map_of cp ''year'' of None \<Rightarrow> JStr [] | Some v \<Rightarrow> v)"
      "citing_venue row = (case map_of cp ''venue'' of None \<Rightarrow> JStr [] | Some v \<Rightarrow> v)"
      "citing_paper_id row = (case map_of cp ''paperId'' of None \<Rightarrow> JStr [] | Some v \<Rightarrow> v)"
    by (elim conjE citation_data_Inr, simp)+
  {
    assume "map_of cp ''citationCount'' = None"
    then show "citing_citation_count row = JInt 0" using f by simp
  next
    assume "map_of cp ''title'' = None"
    then show "citing_title row = JStr []" using f by simp
  next
    assume "map_of cp ''year'' = None"
    then show "citing_year row = JStr []" using f by simp
  next
    assume "map_of cp ''venue'' = None"
    then show "citing_venue row = JStr []" using f by simp
  next
    assume "map_of cp ''paperId'' = None"
    then show "citing_paper_id row = JStr []" using f by simp
  next
    assume "map_of cp ''year'' = Some (JInt y)"
    then show "citing_year row = JInt y" using f by simp
  }
next
  show "citation_data doi (JDict p) paper_id orig_title (JDict []) =
       Inr \<lparr> original_doi = JStr doi, original_title = orig_title,
             original_paper_id = paper_id,
             original_corpus_id = (case map_of p ''corpusId'' of None \<Rightarrow> JStr [] | Some v \<Rightarrow> v),
             citing_title = JStr [], citing_authors = JStr [], citing_year = JStr [],
             citing_venue = JStr [], citing_doi = JStr [], citing_pubmed_id = JStr [],
             citing_arxiv_id = JStr [], citing_citation_count = JInt 0,
             citing_paper_id = JStr [], citing_publication_types = JStr [],
             citing_abstract = JStr [] \<rparr>"
    by (simp add: citation_data_def abstract_text_def bind_err_def py_or_def py_join_def)
next
  show "map_sum id (map citing_year)
        (citation_rows doi (JDict p) paper_id orig_title
           [JDict [(''citingPaper'', JDict [(''year'', JInt y)])], JDict []]) =
       Inr [JInt y, JStr []]"
    by (simp add: citation_data_def abstract_text_def bind_err_def py_or_def py_join_def)
qed

theorem citation_count_default_is_integer_witness:
  "citation_data ''10.1/x'' (JDict []) (JStr ''p1'') (JStr ''T'')
     (JDict [(''citingPaper'', JDict [(''year'', JInt 2020)])]) =
     Inr \<lparr> original_doi = JStr ''10.1/x'', original_title = JStr ''T'',
           original_paper_id = JStr ''p1'', original_corpus_id = JStr [],
           citing_title = JStr [], citing_authors = JStr [], citing_year = JInt 2020,
           citing_venue = JStr [], citing_doi = JStr [], citing_pubmed_id = JStr [],
           citing_arxiv_id = JStr [], citing_citation_count = JInt 0,
           citing_paper_id = JStr [], citing_publication_types = JStr [],
           citing_abstract = JStr [] \<rparr>
   \<and> py_get (JDict [(''citingPaper'', JDict [(''year'', JInt 2020)])]) ''citingPaper'' (JDict []) =
       Inr (JDict [(''year'', JInt 2020)])
   \<and> map_of [(''year'', JInt 2020)] ''citationCount'' = None
   \<and> map_of [(''year'', JInt 2020)] ''year'' = Some (JInt 2020)"
  using citation_count_default_is_integer
    [of "''10.1/x''" "JDict []" "JStr ''p1''" "JStr ''T''"
        "JDict [(''citingPaper'', JDict [(''year'', JInt 2020)])]" _
        "[(''year'', JInt 2020)]" 2020]
  by (simp add: citation_data_def abstract_text_def bind_err_def py_or_def py_join_def)

text \<open>
  C8. On every citation edge of the data model (each field, where present, has the type
  the data model gives it) the flattening returns a row and never raises: absent or null
  external identifiers give the empty text in each of the three identifier fields, absent
  or null publication types give the empty text, an author without name counts as the
  empty name in the joined authors, and an edge without citing paper gives every default.
\<close>

theorem citation_data_defaults_when_well_typed:
  "edge_ok c \<longrightarrow>
     (\<exists>row. citation_data doi (JDict p) paper_id orig_title (JDict c) = Inr row
        \<and> (map_of (citing_paper_items c) ''externalIds'' = None \<or>
            map_of (citing_paper_items c) ''externalIds'' = Some JNull \<longrightarrow>
              citing_doi row = JStr [] \<and> citing_pubmed_id row = JStr [] \<and>
              citing_arxiv_id row = JStr [])
        \<and> (map_of (citing_paper_items c) ''publicationTypes'' = None \<or>
            map_of (citing_paper_items c) ''publicationTypes'' = Some JNull \<longrightarrow>
              citing_publication_types row = JStr [])
        \<and> (map_of (citing_paper_items c) ''authors'' = None \<longrightarrow> citing_authors row = JStr [])
        \<and> (\<forall>as. map_of (citing_paper_items c) ''authors'' = Some (JList as) \<longrightarrow>
              citing_authors row = JStr (join_strs ''; '' (map author_name as)))
        \<and> (map_of c ''citingPaper'' = None \<longrightarrow>
              citing_title row = JStr [] \<and> citing_authors row = JStr [] \<and>
              citing_year row = JStr [] \<and> citing_venue row = JStr [] \<and>
              citing_doi row = JStr [] \<and> citing_pubmed_id row = JStr [] \<and>
              citing_arxiv_id row = JStr [] \<and> citing_citation_count row = JInt 0 \<and>
              citing_paper_id row = JStr [] \<and> citing_publication_types row = JStr [] \<and>
              citing_abstract row = JStr []))"
proof
  assume edge: "edge_ok c"
  define cp where "cp = citing_paper_items c"
  have "py_get (JDict c) ''citingPaper'' (JDict []) = Inr (JDict cp) \<and> citing_paper_ok cp"
  proof (cases "map_of c ''citingPaper''")
    case None
    then show ?thesis by (simp add: cp_def citing_paper_items_def citing_paper_ok_def)
  next
    case (Some v)
    with edge obtain cp' where "v = JDict cp'" and "citing_paper_ok cp'"
      by (cases v) (simp_all add: edge_ok_def)
    with Some show ?thesis by (simp add: cp_def citing_paper_items_def)
  qed
  then have cpv: "py_get (JDict c) ''citingPaper'' (JDict []) = Inr (JDict cp)"
    and ok: "citing_paper_ok cp" by simp_all
  have empty: "cp = []" if "map_of c ''citingPaper'' = None"
    using that by (simp add: cp_def citing_paper_items_def)
  from citation_data_total[OF edge] obtain row
    where row: "citation_data doi (JDict p) paper_id orig_title (JDict c) = Inr row" ..
  from row obtain cp' items names ids authors_s types_s where f:
    "py_get (JDict c) ''citingPaper'' (JDict []) = Inr (JDict cp')"
    "py_iter (case map_of cp' ''authors'' of None \<Rightarrow> JList [] | Some v \<Rightarrow> v) = Inr items"
    "author_names items = Inr names"
    "py_join ''; '' (JList names) = Inr authors_s"
    "citing_authors row = JStr authors_s"
    "py_or (case map_of cp' ''externalIds'' of None \<Rightarrow> JNull | Some v \<Rightarrow> v) (JDict []) = JDict ids"
    "citing_doi row = (case map_of ids ''DOI'' of None \<Rightarrow> JStr [] | Some v \<Rightarrow> v)"
    "citing_pubmed_id row = (case map_of ids ''PubMed'' of None \<Rightarrow> JStr [] | Some v \<Rightarrow> v)"
    "citing_arxiv_id row = (case map_of ids ''ArXiv'' of None \<Rightarrow> JStr [] | Some v \<Rightarrow> v)"
    "py_join ''; '' (py_or (case map_of cp' ''publicationTypes'' of None \<Rightarrow> JNull | Some v \<Rightarrow> v) (JList [])) = Inr types_s"
    "citing_publication_types row = JStr types_s"
    "citing_title row = (case map_of cp' ''title'' of None \<Rightarrow> JStr [] | Some v \<Rightarrow> v)"
    "citing_year row = (case map_of cp' ''year'' of None \<Rightarrow> JStr [] | Some v \<Rightarrow> v)"
    "citing_venue row = (case map_of cp' ''venue'' of None \<Rightarrow> JStr [] | Some v \<Rightarrow> v)"
    "citing_paper_id row = (case map_of cp' ''paperId'' of None \<Rightarrow> JStr [] | Some v \<Rightarrow> v)"
    "citing_citation_count row = (case map_of cp' ''citationCount'' of None \<Rightarrow> JInt 0 | Some v \<Rightarrow> v)"
    "abstract_text (JDict cp') = Inr (citing_abstract row)"
    by (rule citation_data_Inr)
  from f(1) cpv have same: "cp' = cp" by simp
  note g = f[unfolded same]
  from authors_joined_ok[OF ok] g(2,3,4) have authors:
    "authors_s = join_strs ''; '' (map author_name items)"
    "map_of cp ''authors'' = None \<longrightarrow> items = []"
    "\<forall>as. map_of cp ''authors'' = Some (JList as) \<longrightarrow> items = as"
    by auto
  from external_ids_ok[OF ok] g(6) have ids:
    "map_of cp ''externalIds'' = None \<or> map_of cp ''externalIds'' = Some JNull \<longrightarrow> ids = []"
    by auto
  from publication_types_ok[OF ok] g(10) have types:
    "map_of cp ''publicationTypes'' = None \<or> map_of cp ''publicationTypes'' = Some JNull \<longrightarrow> types_s = []"
    by auto
  have abs: "map_of cp ''abstract'' = None \<longrightarrow> citing_abstract row = JStr []"
    using g(17) by (auto simp: abstract_text_def bind_err_def)
  show "\<exists>row. citation_data doi (JDict p) paper_id orig_title (JDict c) = Inr row
        \<and> (map_of (citing_paper_items c) ''externalIds'' = None \<or>
            map_of (citing_paper_items c) ''externalIds'' = Some JNull \<longrightarrow>
              citing_doi row = JStr [] \<and> citing_pubmed_id row = JStr [] \<and>
              citing_arxiv_id row = JStr [])
        \<and> (map_of (citing_paper_items c) ''publicationTypes'' = None \<or>
            map_of (citing_paper_items c) ''publicationTypes'' = Some JNull \<longrightarrow>
              citing_publication_types row = JStr [])
        \<and> (map_of (citing_paper_items c) ''authors'' = None \<longrightarrow> citing_authors row = JStr [])
        \<and> (\<forall>as. map_of (citing_paper_items c) ''authors'' = Some (JList as) \<longrightarrow>
              citing_authors row = JStr (join_strs ''; '' (map author_name as)))
        \<and> (map_of c ''citingPaper'' = None \<longrightarrow>
              citing_title row = JStr [] \<and> citing_authors row = JStr [] \<and>
              citing_year row = JStr [] \<and> citing_venue row = JStr [] \<and>
              citing_doi row = JStr [] \<and> citing_pubmed_id row = JStr [] \<and>
              citing_arxiv_id row = JStr [] \<and> citing_citation_count row = JInt 0 \<and>
              citing_paper_id row = JStr [] \<and> citing_publication_types row = JStr [] \<and>
              citing_abstract row = JStr [])"
  proof (intro exI[of _ row] conjI impI allI)
    show "citation_data doi (JDict p) paper_id orig_title (JDict c) = Inr row" by (rule row)
  qed (use g authors ids types abs empty in \<open>simp_all add: cp_def[symmetric]\<close>)
qed

theorem citation_data_defaults_when_well_typed_witness:
  "edge_ok [(''citingPaper'',
       JDict [(''authors'', JList [JDict [(''name'', JStr ''A'')], JDict []]),
              (''externalIds'', JNull)])]
   \<and> citation_data ''10.1/x'' (JDict []) (JStr ''p1'') (JStr ''T'')
        (JDict [(''citingPaper'',
           JDict [(''authors'', JList [JDict [(''name'', JStr ''A'')], JDict []]),
                  (''externalIds'', JNull)])]) =
       Inr \<lparr> original_doi = JStr ''10.1/x'', original_title = JStr ''T'',
             original_paper_id = JStr ''p1'', original_corpus_id = JStr [],
             citing_title = JStr [], citing_authors = JStr ''A; '', citing_year = JStr [],
             citing_venue = JStr [], citing_doi = JStr [], citing_pubmed_id = JStr [],
             citing_arxiv_id = JStr [], citing_citation_count = JInt 0,
             citing_paper_id = JStr [], citing_publication_types = JStr [],
             citing_abstract = JStr [] \<rparr>"
  using citation_data_defaults_when_well_typed
    [of "[(''citingPaper'',
         JDict [(''authors'', JList [JDict [(''name'', JStr ''A'')], JDict []]),
                (''externalIds'', JNull)])]"
        "''10.1/x''" "[]" "JStr ''p1''" "JStr ''T''"]
  by (simp add: edge_ok_def citing_paper_ok_def author_ok_def citation_data_def
      abstract_text_def bind_err_def py_or_def py_join_def)

text \<open>
  The edges of the data model are the ones the flattening is total on: a citing paper, a
  sequence of authors or an author name that is present and null is none of them, and
  raises.
\<close>

lemma citation_data_raises_on_null:
  "citation_data ''10.1/x'' (JDict []) (JStr ''p1'') (JStr ''T'')
     (JDict [(''citingPaper'', JNull)]) = Inl AttributeError
   \<and> citation_data ''10.1/x'' (JDict []) (JStr ''p1'') (JStr ''T'')
       (JDict [(''citingPaper'', JDict [(''authors'', JNull)])]) = Inl TypeError
   \<and> citation_data ''10.1/x'' (JDict []) (JStr ''p1'') (JStr ''T'')
       (JDict [(''citingPaper'', JDict [(''authors'', JList [JDict [(''name'', JNull)]])])]) =
       Inl TypeError"
  by (simp add: citation_data_def abstract_text_def bind_err_def py_or_def py_join_def)

subsection \<open>The pagination loop, step by step\<close>

lemma loop_params:
  "citations_loop self url (AList.update ''offset'' v params) acc off srv =
   citations_loop self url params acc off srv"
  by (simp only: citations_loop.simps[of _ _ "AList.update ''offset'' v params"]
      citations_loop.simps[of _ _ params] AList.update_last)

lemma page_cases:
  assumes "page r = Some es"
  obtains data where "r = Http 200 (Some (JDict data))"
    and "page_citations (Some (JDict data)) = Inr (JList es)"
proof -
  from assms obtain st body where r: "r = Http st body"
    by (cases r) (simp_all add: page_def)
  from assms r obtain b where b: "body = Some b" by (cases body) (simp_all add: page_def)
  from assms r b obtain data where d: "b = JDict data" by (cases b) (simp_all add: page_def)
  from assms r b d have st: "st = 200" by (simp add: page_def split: if_splits)
  from assms r b d st have "page_citations (Some (JDict data)) = Inr (JList es)"
    by (cases "map_of data ''data''")
       (auto simp: page_def page_citations_def split: json.splits)
  with r b d st show ?thesis by (intro that[of data]) simp_all
qed

lemma loop_last:
  assumes "page r = Some es" and "length es < 1000"
  shows "citations_loop self url params acc off (r ## srv) =
     Some (acc @ es, srv, [Request (loop_request self url params off)])"
proof -
  from assms(1) obtain data where r: "r = Http 200 (Some (JDict data))"
    and p: "page_citations (Some (JDict data)) = Inr (JList es)" by (rule page_cases)
  show ?thesis
    by (subst citations_loop.simps) (simp add: r p Let_def loop_request_def assms(2))
qed

lemma loop_full:
  assumes "full_page r"
  shows "citations_loop self url params acc off (r ## srv) =
     map_option (after [Request (loop_request self url params off), Sleep (delay self),
                        Sleep (delay self)])
       (citations_loop self url params (acc @ edges r) (off + 1000) srv)"
proof -
  from assms obtain es where es: "page r = Some es" and len: "1000 \<le> length es"
    by (cases "page r") (simp_all add: full_page_def)
  from es obtain data where r: "r = Http 200 (Some (JDict data))"
    and p: "page_citations (Some (JDict data)) = Inr (JList es)" by (rule page_cases)
  from len have ne: "es \<noteq> []" and nl: "\<not> length es < 1000" by auto
  show ?thesis
    by (subst citations_loop.simps)
       (simp add: r p Let_def loop_request_def nl ne edges_def es[unfolded r] loop_params
          bind_Some_after)
qed

lemma loop_throttled:
  assumes "throttled r"
  shows "citations_loop self url params acc off (r ## srv) =
     map_option (after [Request (loop_request self url params off), Sleep 60])
       (citations_loop self url params acc off srv)"
proof -
  from assms obtain b where r: "r = Http 429 b"
    by (cases r) (simp_all add: throttled_def)
  show ?thesis
    by (subst citations_loop.simps)
       (simp add: r Let_def loop_request_def loop_params bind_Some_after)
qed

lemma loop_fault:
  assumes "fault r"
  shows "citations_loop self url params acc off (r ## srv) =
     Some (acc, srv, [Request (loop_request self url params off)])"
  using assms
  by (subst citations_loop.simps)
     (auto simp: fault_def Let_def loop_request_def split: response.splits)

lemma throttled_no_page: "throttled r \<Longrightarrow> page r = None"
  by (cases r) (auto simp: throttled_def page_def split: option.splits json.splits)

lemma throttled_no_edges: "throttled r \<Longrightarrow> edges r = []"
  by (simp add: edges_def throttled_no_page)

lemma full_page_not_throttled: "full_page r \<Longrightarrow> \<not> throttled r"
  by (auto simp: full_page_def dest: throttled_no_page)

lemma loop_prefix:
  "list_all (\<lambda>r. full_page r \<or> throttled r) pre \<Longrightarrow>
   citations_loop self url params acc off (pre @- srv) =
     map_option (after (prefix_events self url params off pre))
       (citations_loop self url params (acc @ concat (map edges pre))
          (prefix_offset off pre) srv)"
proof (induction pre arbitrary: acc off)
  case Nil
  show ?case by (simp add: map_after_Nil)
next
  case (Cons r pre)
  then have rest: "list_all (\<lambda>r. full_page r \<or> throttled r) pre" by simp
  show ?case
  proof (cases "throttled r")
    case True
    then show ?thesis
      by (simp add: loop_throttled Cons.IH[OF rest] map_after_after throttled_no_edges)
  next
    case False
    with Cons.prems have "full_page r" by simp
    then show ?thesis using False
      by (simp add: loop_full Cons.IH[OF rest] map_after_after)
  qed
qed

lemma full_pages_events:
  "list_all full_page pre \<Longrightarrow>
   length (prefix_events self url params off pre) = 3 * length pre \<and>
   prefix_offset off pre = off + 1000 * int (length pre) \<and>
   list_all (\<lambda>r. full_page r \<or> throttled r) pre"
proof (induction pre arbitrary: off)
  case Nil
  show ?case by simp
next
  case (Cons r pre)
  then have "full_page r" and rest: "list_all full_page pre" by simp_all
  from \<open>full_page r\<close> have "\<not> throttled r" by (rule full_page_not_throttled)
  then show ?case using Cons.IH[OF rest, of "off + 1000"] \<open>full_page r\<close> by simp
qed

lemma loop_first_event:
  assumes "citations_loop self url params acc off srv = Some (es, srv', evs)"
  shows "\<exists>evs'. evs = Request (loop_request self url params off) # evs'"
proof -
  have step: "\<exists>evs'. evs = Request q # evs'"
    if "Option.bind m (\<lambda>r. Some (after (Request q # t) r)) = Some (es, srv', evs)"
    for m :: "(json list \<times> service \<times> event list) option" and q t
    using that by (cases m) (auto simp: after_def)
  from assms show ?thesis
    by (subst (asm) citations_loop.simps)
       (auto simp: Let_def loop_request_def split: response.splits if_splits sum.splits
          dest!: step)
qed

text \<open>
  C5. After any number of full pages (and of throttling signals among them), a transport
  fault on the next request (an exception or a status code other than 200 and 429) ends
  \<^verbatim>\<open>get_forward_citations\<close>, which returns exactly the edges of those pages, in order,
  and raises nothing; the faulty request is the last event. A fault on the second request
  returns the edges of the first page.
\<close>

theorem fault_returns_accumulated_pages:
  "list_all (\<lambda>r. full_page r \<or> throttled r) pre \<and> fault f \<longrightarrow>
     get_forward_citations self paper_id limit (pre @- f ## rest) =
       Some (concat (map edges pre), rest,
             fetch_events self paper_id limit pre @
             [Request (citations_request self paper_id limit (prefix_offset 0 pre))])"
  by (simp add: get_forward_citations_def loop_prefix loop_fault after_triple
      fetch_events_def citations_request_def)

theorem fault_returns_accumulated_pages_witness:
  "full_page (Http 200 (Some (JDict [(''data'', JList (replicate 1000 (JDict [])))])))
   \<and> fault (Raises Timeout)
   \<and> get_forward_citations (init_scraper None) (JStr ''p1'') 1000
        ([Http 200 (Some (JDict [(''data'', JList (replicate 1000 (JDict [])))]))] @-
         Raises Timeout ## sconst (Http 404 None)) =
       Some (replicate 1000 (JDict []), sconst (Http 404 None),
             [Request (citations_request (init_scraper None) (JStr ''p1'') 1000 0),
              Sleep (delay (init_scraper None)), Sleep (delay (init_scraper None)),
              Request (citations_request (init_scraper None) (JStr ''p1'') 1000 1000)])"
  using fault_returns_accumulated_pages
    [of "[Http 200 (Some (JDict [(''data'', JList (replicate 1000 (JDict [])))]))]"
        "Raises Timeout" "init_scraper None" "JStr ''p1''" 1000 "sconst (Http 404 None)"]
  by (simp add: full_page_def page_def fault_def edges_def fetch_events_def
      citations_request_def throttled_def)

subsection \<open>A throttling signal during the pagination\<close>

lemma after_insert:
  "length E = n \<Longrightarrow>
   (case after E x of (es, srv, evs) \<Rightarrow> (es, srv, take n evs @ T @ drop n evs)) =
   after (E @ T) x"
  by (cases x) (simp add: after_def)

text \<open>
  C6. A run with one throttling signal after \<open>k\<close> full pages is the run without the signal
  with two events put in after the \<open>3 * k\<close> events of those pages: one more request at
  the offset \<open>1000 * k\<close> and one wait of 60. The request that follows is at the same
  offset, and the edges returned and the rest of the service are those of the run with
  no throttling.
\<close>

theorem throttle_repeats_same_offset:
  "list_all full_page pre \<and> throttled thr \<longrightarrow>
     get_forward_citations self paper_id limit (pre @- thr ## post) =
       map_option
         (\<lambda>(es, srv, evs).
            (es, srv,
             take (3 * length pre) evs @
             [Request (citations_request self paper_id limit (1000 * int (length pre))),
              Sleep 60] @
             drop (3 * length pre) evs))
         (get_forward_citations self paper_id limit (pre @- post))
     \<and> (\<forall>es srv evs.
           get_forward_citations self paper_id limit (pre @- post) = Some (es, srv, evs) \<longrightarrow>
           (\<exists>evs'. drop (3 * length pre) evs =
              Request (citations_request self paper_id limit (1000 * int (length pre))) # evs'))"
proof (intro impI)
  assume h: "list_all full_page pre \<and> throttled thr"
  define url where "url = citations_url self paper_id"
  define params where "params = citations_params limit"
  define E where "E = prefix_events self url params 0 pre"
  define T where "T = [Request (citations_request self paper_id limit (1000 * int (length pre))), Sleep 60]"
  define X where "X = citations_loop self url params (concat (map edges pre)) (1000 * int (length pre)) post"
  from h full_pages_events[of pre self url params 0]
  have len: "length E = 3 * length pre" and off: "prefix_offset 0 pre = 1000 * int (length pre)"
    and pre: "list_all (\<lambda>r. full_page r \<or> throttled r) pre"
    by (simp_all add: E_def)
  have plain: "get_forward_citations self paper_id limit (pre @- post) = map_option (after E) X"
    by (simp add: get_forward_citations_def loop_prefix[OF pre] off E_def X_def url_def params_def)
  have thr: "get_forward_citations self paper_id limit (pre @- thr ## post) =
      map_option (after (E @ T)) X"
    using h
    by (simp add: get_forward_citations_def loop_prefix[OF pre] off loop_throttled
        map_after_after E_def X_def T_def url_def params_def citations_request_def)
  have ins: "(\<lambda>(es, srv, evs). (es, srv, take (3 * length pre) evs @ T @ drop (3 * length pre) evs)) (after E x) =
      after (E @ T) x" for x
    using after_insert[OF len, where x = x and T = T] by (simp add: case_prod_beta)
  have 1: "get_forward_citations self paper_id limit (pre @- thr ## post) =
       map_option
         (\<lambda>(es, srv, evs). (es, srv, take (3 * length pre) evs @ T @ drop (3 * length pre) evs))
         (get_forward_citations self paper_id limit (pre @- post))"
    unfolding plain thr by (cases X) (simp_all add: ins)
  have 2: "\<exists>evs'. drop (3 * length pre) evs =
        Request (citations_request self paper_id limit (1000 * int (length pre))) # evs'"
    if "get_forward_citations self paper_id limit (pre @- post) = Some (es, srv, evs)"
    for es srv evs
  proof -
    from that plain obtain x where x: "X = Some x" and e: "after E x = (es, srv, evs)"
      by (cases X) simp_all
    obtain es' srv' evs' where x': "x = (es', srv', evs')" by (cases x)
    from x x' loop_first_event[of self url params _ _ post es' srv' evs']
    obtain evs'' where "evs' = Request (loop_request self url params (1000 * int (length pre))) # evs''"
      by (auto simp: X_def)
    with e x' len show ?thesis
      by (auto simp: after_def citations_request_def url_def params_def)
  qed
  from 1 2 show "get_forward_citations self paper_id limit (pre @- thr ## post) =
       map_option
         (\<lambda>(es, srv, evs).
            (es, srv,
             take (3 * length pre) evs @
             [Request (citations_request self paper_id limit (1000 * int (length pre))),
              Sleep 60] @
             drop (3 * length pre) evs))
         (get_forward_citations self paper_id limit (pre @- post))
     \<and> (\<forall>es srv evs.
           get_forward_citations self paper_id limit (pre @- post) = Some (es, srv, evs) \<longrightarrow>
           (\<exists>evs'. drop (3 * length pre) evs =
              Request (citations_request self paper_id limit (1000 * int (length pre))) # evs'))"
    unfolding T_def by blast
qed

theorem throttle_repeats_same_offset_witness:
  "list_all full_page [Http 200 (Some (JDict [(''data'', JList (replicate 1000 (JDict [])))]))]
   \<and> throttled (Http 429 None)
   \<and> get_forward_citations (init_scraper None) (JStr ''p1'') 1000
        (Http 200 (Some (JDict [(''data'', JList (replicate 1000 (JDict [])))])) ##
         Http 200 (Some (JDict [(''data'', JList [JDict [], JDict []])])) ##
         sconst (Http 404 None)) =
       Some (replicate 1000 (JDict []) @ [JDict [], JDict []], sconst (Http 404 None),
             [Request (citations_request (init_scraper None) (JStr ''p1'') 1000 0),
              Sleep (delay (init_scraper None)), Sleep (delay (init_scraper None)),
              Request (citations_request (init_scraper None) (JStr ''p1'') 1000 1000)])
   \<and> get_forward_citations (init_scraper None) (JStr ''p1'') 1000
        (Http 200 (Some (JDict [(''data'', JList (replicate 1000 (JDict [])))])) ##
         Http 429 None ##
         Http 200 (Some (JDict [(''data'', JList [JDict [], JDict []])])) ##
         sconst (Http 404 None)) =
       Some (replicate 1000 (JDict []) @ [JDict [], JDict []], sconst (Http 404 None),
             [Request (citations_request (init_scraper None) (JStr ''p1'') 1000 0),
              Sleep (delay (init_scraper None)), Sleep (delay (init_scraper None)),
              Request (citations_request (init_scraper None) (JStr ''p1'') 1000 1000),
              Sleep 60,
              Request (citations_request (init_scraper None) (JStr ''p1'') 1000 1000)])"
proof -
  let ?p = "Http 200 (Some (JDict [(''data'', JList (replicate 1000 (JDict [])))]))"
  let ?q = "Http 200 (Some (JDict [(''data'', JList [JDict [], JDict []])]))"
  have full: "full_page ?p" by (simp add: full_page_def page_def)
  have e: "edges ?p = replicate 1000 (JDict [])" by (simp add: edges_def page_def)
  have last: "page ?q = Some [JDict [], JDict []]" by (simp add: page_def)
  have thr: "throttled (Http 429 None)" by (simp add: throttled_def)
  have plain: "get_forward_citations (init_scraper None) (JStr ''p1'') 1000
        (?p ## ?q ## sconst (Http 404 None)) =
       Some (replicate 1000 (JDict []) @ [JDict [], JDict []], sconst (Http 404 None),
             [Request (citations_request (init_scraper None) (JStr ''p1'') 1000 0),
              Sleep (delay (init_scraper None)), Sleep (delay (init_scraper None)),
              Request (citations_request (init_scraper None) (JStr ''p1'') 1000 1000)])"
    by (simp add: get_forward_citations_def loop_full[OF full] loop_last[OF last] e
        after_triple citations_request_def)
  from throttle_repeats_same_offset
    [of "[?p]" "Http 429 None" "init_scraper None" "JStr ''p1''" 1000
        "?q ## sconst (Http 404 None)"]
    full thr plain
  show ?thesis by simp
qed

subsection \<open>The end of the pagination\<close>

lemma pages_1000_1000_400:
  assumes "page p1 = Some es1" and "length es1 = 1000"
    and "page p2 = Some es2" and "length es2 = 1000"
    and "page p3 = Some es3" and "length es3 = 400"
  shows "get_forward_citations self paper_id limit (p1 ## p2 ## p3 ## srv) =
     Some (es1 @ es2 @ es3, srv,
           [Request (citations_request self paper_id limit 0),
            Sleep (delay self), Sleep (delay self),
            Request (citations_request self paper_id limit 1000),
            Sleep (delay self), Sleep (delay self),
            Request (citations_request self paper_id limit 2000)])
     \<and> length (es1 @ es2 @ es3) = 2400"
proof -
  from assms have f1: "full_page p1" and f2: "full_page p2"
    by (simp_all add: full_page_def)
  from assms have e: "edges p1 = es1" "edges p2 = es2" by (simp_all add: edges_def)
  from assms have l: "length es3 < 1000" by simp
  show ?thesis
    by (simp add: get_forward_citations_def loop_full[OF f1] loop_full[OF f2]
        loop_last[OF assms(5) l] e after_triple citations_request_def assms)
qed

lemma pages_1000_0:
  assumes "page p1 = Some es1" and "length es1 = 1000" and "page p2 = Some []"
  shows "get_forward_citations self paper_id limit (p1 ## p2 ## srv) =
     Some (es1, srv,
           [Request (citations_request self paper_id limit 0),
            Sleep (delay self), Sleep (delay self),
            Request (citations_request self paper_id limit 1000)])"
proof -
  from assms have f1: "full_page p1" by (simp add: full_page_def)
  from assms have e: "edges p1 = es1" by (simp add: edges_def)
  show ?thesis
    by (simp add: get_forward_citations_def loop_full[OF f1]
        loop_last[OF assms(3)] e after_triple citations_request_def)
qed

text \<open>
  C1. With a limit of 500 the request asks for pages of 500 edges. A first page of 500
  edges, which is not shorter than the page size, ends the loop all the same: line 83
  compares with 1000. One request is sent, 500 edges are returned and the second page is
  never asked for.
\<close>

theorem page_of_limit_500_ends_the_fetch:
  "map_of (req_params (citations_request (init_scraper None) (JStr ''p1'') 500 0)) ''limit'' =
     Some (JInt 500)
   \<and> page (Http 200 (Some (JDict [(''data'', JList (replicate 500 (JDict [])))]))) =
       Some (replicate 500 (JDict []))
   \<and> get_forward_citations (init_scraper None) (JStr ''p1'') 500
        (Http 200 (Some (JDict [(''data'', JList (replicate 500 (JDict [])))])) ##
         Http 200 (Some (JDict [(''data'', JList (replicate 300 (JDict [])))])) ##
         sconst (Http 404 None)) =
       Some (replicate 500 (JDict []),
             Http 200 (Some (JDict [(''data'', JList (replicate 300 (JDict [])))])) ##
             sconst (Http 404 None),
             [Request (citations_request (init_scraper None) (JStr ''p1'') 500 0)])"
proof -
  let ?p = "Http 200 (Some (JDict [(''data'', JList (replicate 500 (JDict [])))]))"
  have p: "page ?p = Some (replicate 500 (JDict []))" by (simp add: page_def)
  have l: "length (replicate 500 (JDict [])) < 1000" by simp
  show ?thesis
    by (simp add: get_forward_citations_def loop_last[OF p l] p citations_request_def
        loop_request_def citations_params_def)
qed

subsection \<open>The empty dataset\<close>

lemma fst_after: "fst (after evs r) = fst r"
  by (cases r) (simp add: after_def)

lemma map_fst_after: "map_option fst (map_option (after evs) m) = map_option fst m"
  by (cases m) (simp_all add: fst_after)

lemma citation_rows_length:
  "citation_rows doi paper paper_id orig_title citations = Inr rows \<Longrightarrow>
   length rows = length citations"
proof (induction citations arbitrary: rows)
  case Nil
  then show ?case by simp
next
  case (Cons c cs)
  then show ?case
    by (auto simp: bind_err_def split: sum.splits)
qed

lemma process_loop_grows:
  "map_option fst (process_loop self dois acc frames srv) = Some (Inr rows) \<Longrightarrow>
   \<exists>more. rows = acc @ more"
proof (induction dois arbitrary: acc srv)
  case Nil
  then show ?case by simp
next
  case (Cons doi dois)
  obtain p srv1 evs1 where t: "get_paper_by_doi self doi frames srv = (p, srv1, evs1)"
    by (cases "get_paper_by_doi self doi frames srv")
  show ?case
  proof (cases p)
    case None
    with Cons.prems t Cons.IH[of acc srv1] show ?thesis
      by (simp add: map_fst_after)
  next
    case (Some paper)
    note p = this
    show ?thesis
    proof (cases "truthy paper")
      case False
      with Cons.prems t p Cons.IH[of acc srv1]
      show ?thesis by (simp add: map_fst_after)
    next
      case True
      note tr = this
      show ?thesis
      proof (cases "py_getitem paper ''paperId''")
        case (Inl e)
        with Cons.prems t p tr
        show ?thesis by simp
      next
        case (Inr paper_id)
        note pid = this
        show ?thesis
        proof (cases "py_get paper ''title'' (JStr ''Unknown'')")
          case (Inl e)
          with Cons.prems t p tr pid
          show ?thesis by simp
        next
          case (Inr orig_title)
          note ti = this
          show ?thesis
          proof (cases "get_forward_citations self paper_id 1000 srv1")
            case None
            with Cons.prems t p tr pid ti
            show ?thesis by simp
          next
            case (Some u)
            obtain citations srv2 evs2 where u: "u = (citations, srv2, evs2)" by (cases u)
            show ?thesis
            proof (cases "citation_rows doi paper paper_id orig_title citations")
              case (Inl e)
              with Cons.prems t p tr pid ti Some u
              show ?thesis by simp
            next
              case (Inr new_rows)
              with Cons.prems t p tr pid ti Some u
              have "map_option fst (process_loop self dois (acc @ new_rows) frames srv2) =
                  Some (Inr rows)"
                by (simp add: map_fst_after)
              from Cons.IH[OF this] show ?thesis by auto
            qed
          qed
        qed
      qed
    qed
  qed
qed

lemma py_getitem_dict:
  "py_getitem paper key = Inr v \<Longrightarrow> \<exists>t. py_get paper key' dflt = Inr t"
  by (cases paper) simp_all

lemma process_loop_empty:
  "(map_option fst (process_loop self dois [] frames srv) = Some (Inr [])) =
   barren_run self dois frames srv"
proof (induction dois arbitrary: srv)
  case Nil
  show ?case by simp
next
  case (Cons doi dois)
  obtain p srv1 evs1 where t: "get_paper_by_doi self doi frames srv = (p, srv1, evs1)"
    by (cases "get_paper_by_doi self doi frames srv")
  show ?case
  proof (cases p)
    case None
    with t Cons.IH[of srv1] show ?thesis
      by (simp add: map_fst_after)
  next
    case (Some paper)
    note p = this
    show ?thesis
    proof (cases "truthy paper")
      case False
      with t p Cons.IH[of srv1]
      show ?thesis by (simp add: map_fst_after)
    next
      case True
      note tr = this
      show ?thesis
      proof (cases "py_getitem paper ''paperId''")
        case (Inl e)
        with t p tr
        show ?thesis by simp
      next
        case (Inr paper_id)
        note pid = this
        from py_getitem_dict[OF pid] obtain orig_title
          where ti: "py_get paper ''title'' (JStr ''Unknown'') = Inr orig_title" by blast
        show ?thesis
        proof (cases "get_forward_citations self paper_id 1000 srv1")
          case None
          with t p tr pid ti
          show ?thesis by simp
        next
          case (Some u)
          obtain citations srv2 evs2 where u: "u = (citations, srv2, evs2)" by (cases u)
          show ?thesis
          proof (cases "citations = []")
            case True
            with t p tr pid ti Some u Cons.IH[of srv2]
            show ?thesis by (simp add: map_fst_after)
          next
            case False
            have "map_option fst (process_loop self (doi # dois) [] frames srv) \<noteq>
                Some (Inr [])"
            proof (cases "citation_rows doi paper paper_id orig_title citations")
              case (Inl e)
              with t p tr pid ti Some u
              show ?thesis by simp
            next
              case (Inr new_rows)
              from citation_rows_length[OF Inr] False have ne: "new_rows \<noteq> []" by auto
              have "map_option fst (process_loop self dois new_rows frames srv2) \<noteq>
                  Some (Inr [])"
              proof
                assume "map_option fst (process_loop self dois new_rows frames srv2) =
                    Some (Inr [])"
                from process_loop_grows[OF this] ne show False by simp
              qed
              with Inr t p tr pid ti Some u
              show ?thesis by (simp add: map_fst_after)
            qed
            with False t p tr pid Some u
            show ?thesis by simp
          qed
        qed
      qed
    qed
  qed
qed

text \<open>
  C3. The dataset returned by \<^verbatim>\<open>process_dois\<close> is empty exactly when no document of
  the run yields a citation edge: each one either does not resolve, or resolves with zero
  edges. The empty dataset is the same in the two cases.
\<close>

theorem empty_dataset_iff_no_edges:
  "(map_option fst (process_dois self dois frames srv) = Some (Inr [])) =
   barren_run self dois frames srv"
  unfolding process_dois_def by (rule process_loop_empty)

theorem empty_dataset_iff_no_edges_witness:
  "barren_run (init_scraper None) [''10.1/x'', ''10.1/y''] 1000
     (Http 404 None ##
      Http 200 (Some (JDict [(''paperId'', JStr ''p1''), (''title'', JStr ''T'')])) ##
      Http 200 (Some (JDict [(''data'', JList [])])) ##
      sconst (Http 404 None))"
proof -
  let ?paper = "JDict [(''paperId'', JStr ''p1''), (''title'', JStr ''T'')]"
  let ?r = "Http 200 (Some ?paper)"
  let ?b = "Http 200 (Some (JDict [(''data'', JList [])]))"
  have a0: "answer (Http 404 None) = None" by (simp add: answer_def)
  have a: "answer ?r = Some ?paper" by (simp add: answer_def found_paper_def)
  have n0: "\<not> throttled (Http 404 None)" and n: "\<not> throttled ?r"
    by (simp_all add: throttled_def)
  have pg: "page ?b = Some []" by (simp add: page_def)
  have "map_option fst (process_dois (init_scraper None) [''10.1/x'', ''10.1/y''] 1000
      (Http 404 None ## ?r ## ?b ## sconst (Http 404 None))) = Some (Inr [])"
    by (simp add: process_dois_def get_paper_answered[OF n0] get_paper_answered[OF n] a0 a
        get_forward_citations_def loop_last[OF pg] after_def)
  with empty_dataset_iff_no_edges
    [of "init_scraper None" "[''10.1/x'', ''10.1/y'']" 1000
        "Http 404 None ## ?r ## ?b ## sconst (Http 404 None)"]
  show ?thesis by simp
qed

text \<open>
  A document that resolves and has no citation gives the empty dataset, as a document
  that does not resolve does.
\<close>

theorem empty_dataset_with_resolved_document_counterexample:
  "fst (get_paper_by_doi (init_scraper None) ''10.1/x'' 1000
      (Http 200 (Some (JDict [(''paperId'', JStr ''p1''), (''title'', JStr ''T'')])) ##
       Http 200 (Some (JDict [(''data'', JList [])])) ##
       sconst (Http 404 None))) =
     Some (JDict [(''paperId'', JStr ''p1''), (''title'', JStr ''T'')])
   \<and> map_option fst (process_dois (init_scraper None) [''10.1/x''] 1000
      (Http 200 (Some (JDict [(''paperId'', JStr ''p1''), (''title'', JStr ''T'')])) ##
       Http 200 (Some (JDict [(''data'', JList [])])) ##
       sconst (Http 404 None))) = Some (Inr [])
   \<and> fst (get_paper_by_doi (init_scraper None) ''10.1/x'' 1000
      (sconst (Http 404 None))) = None
   \<and> map_option fst (process_dois (init_scraper None) [''10.1/x''] 1000
      (sconst (Http 404 None))) = Some (Inr [])"
proof -
  let ?paper = "JDict [(''paperId'', JStr ''p1''), (''title'', JStr ''T'')]"
  let ?r = "Http 200 (Some ?paper)"
  let ?b = "Http 200 (Some (JDict [(''data'', JList [])]))"
  have a0: "answer (Http 404 None) = None" by (simp add: answer_def)
  have a: "answer ?r = Some ?paper" by (simp add: answer_def found_paper_def)
  have n0: "\<not> throttled (Http 404 None)" and n: "\<not> throttled ?r"
    by (simp_all add: throttled_def)
  have pg: "page ?b = Some []" by (simp add: page_def)
  have s: "sconst (Http 404 None) = Http 404 None ## sconst (Http 404 None)"
    by (rule stream.expand) simp
  have 1: "fst (get_paper_by_doi (init_scraper None) ''10.1/x'' 1000
      (?r ## ?b ## sconst (Http 404 None))) = Some ?paper"
    by (simp add: get_paper_answered[OF n] a)
  have 2: "map_option fst (process_dois (init_scraper None) [''10.1/x''] 1000
      (?r ## ?b ## sconst (Http 404 None))) = Some (Inr [])"
    by (simp add: process_dois_def get_paper_answered[OF n] a
        get_forward_citations_def loop_last[OF pg] after_def)
  have 3: "fst (get_paper_by_doi (init_scraper None) ''10.1/x'' 1000
      (sconst (Http 404 None))) = None"
    by (subst s) (simp add: get_paper_answered[OF n0] a0)
  have 4: "map_option fst (process_dois (init_scraper None) [''10.1/x''] 1000
      (sconst (Http 404 None))) = Some (Inr [])"
    by (subst s) (simp add: process_dois_def get_paper_answered[OF n0] a0 after_def)
  from 1 2 3 4 show ?thesis by (intro conjI)
qed

end
